theory Spec2Isabelle
  imports Main "HOL-Library.AList"
begin

section \<open>The Go library functions the provider calls\<close>

text \<open>
  Go strings are byte sequences, as \<^typ>\<open>string\<close> is. The provider only ever splits,
  trims and tests prefixes with the one-byte separator \<open>/\<close>, so the separator and the
  cutset are a \<^typ>\<open>char\<close>.
\<close>

definition HasPrefix :: "string \<Rightarrow> string \<Rightarrow> bool" where
  "HasPrefix s p = (take (length p) s = p)"

definition TrimPrefix :: "string \<Rightarrow> string \<Rightarrow> string" where
  "TrimPrefix s p = (if HasPrefix s p then drop (length p) s else s)"

definition Trim :: "string \<Rightarrow> char \<Rightarrow> string" where
  "Trim s c = rev (dropWhile (\<lambda>x. x = c) (rev (dropWhile (\<lambda>x. x = c) s)))"

text \<open>\<open>strings.Split\<close>: the pieces between the separators; never an empty list.\<close>

fun Split :: "string \<Rightarrow> char \<Rightarrow> string list" where
  "Split [] sep = [[]]"
| "Split (x # xs) sep =
     (if x = sep then [] # Split xs sep
      else (case Split xs sep of
              [] \<Rightarrow> [[x]]
            | w # ws \<Rightarrow> (x # w) # ws))"

text \<open>
  \<open>strconv.Itoa\<close> and \<open>strconv.FormatInt(_, 10)\<close>: decimal digits, most significant
  first, with a leading \<open>-\<close> for a negative number.
\<close>

definition digitChar :: "nat \<Rightarrow> char" where
  "digitChar d = ''0123456789'' ! d"

fun digits :: "nat \<Rightarrow> string" where
  "digits n = (if n < 10 then [digitChar n] else digits (n div 10) @ [digitChar (n mod 10)])"

declare digits.simps [simp del]

definition Itoa :: "int \<Rightarrow> string" where
  "Itoa i = (if i < 0 then CHR ''-'' # digits (nat (- i)) else digits (nat i))"

definition FormatInt :: "int \<Rightarrow> string" where
  "FormatInt i = Itoa i"

text \<open>
  \<open>strconv.Atoi\<close> on a 64-bit platform: an optional sign, then at least one decimal
  digit and nothing else; a value outside the range of \<open>int64\<close> is an error. The
  error is \<open>None\<close>.
\<close>

definition isDigitChar :: "char \<Rightarrow> bool" where
  "isDigitChar c = (48 \<le> (of_char c :: nat) \<and> (of_char c :: nat) \<le> 57)"

definition digitVal :: "char \<Rightarrow> nat" where
  "digitVal c = of_char c - 48"

definition parseDigits :: "string \<Rightarrow> nat" where
  "parseDigits ds = foldl (\<lambda>n c. n * 10 + digitVal c) 0 ds"

definition Atoi :: "string \<Rightarrow> int option" where
  "Atoi s =
     (let neg = (s \<noteq> [] \<and> hd s = CHR ''-'');
          ds = (if s \<noteq> [] \<and> (hd s = CHR ''-'' \<or> hd s = CHR ''+'') then tl s else s)
      in if ds = [] \<or> \<not> list_all isDigitChar ds then None
         else let n = (if neg then - int (parseDigits ds) else int (parseDigits ds))
              in if n < - (2 ^ 63) \<or> 2 ^ 63 \<le> n then None else Some n)"

section \<open>The data of the provider\<close>

text \<open>
  The framework's \<open>types.Int64\<close>, \<open>types.String\<close> and \<open>types.Bool\<close> hold a value or
  null: an \<^typ>\<open>'a option\<close>, \<open>None\<close> for null. The permission level of an edge is only
  ever read through \<open>ValueString\<close>, so it is the string itself. A permission set is the
  list of its elements.
\<close>

record CollectionPermission =
  Group :: "int option"
  Collection :: "string option"
  Permission :: string

record CollectionGraphResourceModel =
  Revision :: int
  Permissions :: "CollectionPermission list"
  ApplyChildCollectionsPermissions :: "bool option"

record CollectionInfo =
  ID :: int
  ParentID :: int
  Name :: string
  Location :: string

text \<open>
  The generated client's types are not part of the provider's own sources. A collection of
  the listing carries an id that is a JSON integer or a JSON string, a name, an optional
  location and an optional personal owner; a permission level is a string, with the
  constants \<open>read\<close> and \<open>write\<close>; the permissions graph is a revision and a map from
  group keys to maps from collection ids to levels.
\<close>

datatype CollectionId = IdInt int | IdStr string

record Collection =
  Collection_Id :: CollectionId
  Collection_Name :: string
  Collection_Location :: "string option"
  Collection_PersonalOwnerId :: "int option"

definition CollectionPermissionLevelRead :: string where
  "CollectionPermissionLevelRead = ''read''"

definition CollectionPermissionLevelWrite :: string where
  "CollectionPermissionLevelWrite = ''write''"

type_synonym CollectionPermissionsMap = "string \<rightharpoonup> string"

type_synonym GroupsMap = "string \<rightharpoonup> CollectionPermissionsMap"

record CollectionPermissionsGraph =
  Graph_Revision :: int
  Graph_Groups :: GroupsMap

text \<open>
  A call of the client returns a transport error, or a status code with the decoded body
  (\<open>None\<close> when the body is absent or does not decode). The client is the table of
  the server's answers; every call made is recorded in a log.
\<close>

datatype 'a response = TransportError | Response int "'a option"

record Client =
  ListCollections :: "Collection list response"
  GetPermissionsGroup :: "int \<Rightarrow> string response"
  GetCollectionPermissionsGraph :: "int response"
  ReplaceCollectionPermissionsGraph :: "CollectionPermissionsGraph \<Rightarrow> int response"

datatype call =
    CallListCollections
  | CallGetPermissionsGroup int
  | CallGetCollectionPermissionsGraph
  | CallReplaceCollectionPermissionsGraph CollectionPermissionsGraph

datatype error =
    NullGroup
  | NullCollection
  | DuplicatePermission string string
  | ListCollectionsFailed
  | ListCollectionsStatus int
  | ParseCollectionsFailed
  | RequestFailed string
  | UnexpectedStatus string int
  | NilResponseBody

text \<open>
  Go visits the keys of a map in an order the language leaves open. Every \<open>range\<close> over
  a map takes its order from a schedule: a priority for each key, which may depend on the
  \<open>range\<close> statement and on the key of the enclosing loop. Sorting by priority is stable
  and yields every order of the keys for a suitable priority.
\<close>

type_synonym schedule = "nat \<Rightarrow> int \<Rightarrow> int \<Rightarrow> nat"

definition rangeMap :: "(int \<Rightarrow> nat) \<Rightarrow> (int \<times> 'v) list \<Rightarrow> (int \<times> 'v) list" where
  "rangeMap pr m = sort_key (\<lambda>kv. pr (fst kv)) m"

definition rangeSet :: "(int \<Rightarrow> nat) \<Rightarrow> int list \<Rightarrow> int list" where
  "rangeSet pr ks = sort_key pr ks"

section \<open>Building the resource tree\<close>

definition collectionIdInt :: "CollectionId \<Rightarrow> int option" where
  "collectionIdInt cid =
     (case cid of
        IdInt i \<Rightarrow> (if - (2 ^ 63) \<le> i \<and> i < 2 ^ 63 then Some i else None)
      | IdStr collectionIdStr \<Rightarrow> (if collectionIdStr \<noteq> ''root'' then Atoi collectionIdStr else None))"

text \<open>
  The body of the loop of \<open>fetchChildCollections\<close> over the listing. The Go map from
  collection id to \<open>CollectionInfo\<close> is an association list with distinct keys.
\<close>

definition addChildCollection ::
  "Collection \<Rightarrow> (int \<times> CollectionInfo) list \<Rightarrow> (int \<times> CollectionInfo) list" where
  "addChildCollection collection childCollections =
     (if Collection_PersonalOwnerId collection \<noteq> None then childCollections
      else
        let location = (case Collection_Location collection of None \<Rightarrow> [] | Some l \<Rightarrow> l)
        in if location = [] \<or> location = ''/'' then childCollections
           else
             let locationParts = Split (Trim location CHR ''/'') CHR ''/'';
                 parentId =
                   (if length locationParts > 0
                    then (case Atoi (last locationParts) of
                            Some parsedParent \<Rightarrow> parsedParent
                          | None \<Rightarrow> - 1)
                    else - 1)
             in if parentId < 0 then childCollections
                else (case collectionIdInt (Collection_Id collection) of
                        None \<Rightarrow> childCollections
                      | Some collectionId \<Rightarrow>
                          AList.update collectionId
                            \<lparr>ID = collectionId, ParentID = parentId,
                             Name = Collection_Name collection, Location = location\<rparr>
                            childCollections))"

definition fetchChildCollections :: "Client \<Rightarrow> (int \<times> CollectionInfo) list \<times> error list" where
  "fetchChildCollections client =
     (case ListCollections client of
        TransportError \<Rightarrow> ([], [ListCollectionsFailed])
      | Response status body \<Rightarrow>
          if status \<noteq> 200 then ([], [ListCollectionsStatus status])
          else (case body of
                  None \<Rightarrow> ([], [ParseCollectionsFailed])
                | Some collections \<Rightarrow> (fold addChildCollection collections [], [])))"

text \<open>A failed lookup of a group is a warning only: the group gets no name.\<close>

definition fetchGroupNames :: "Client \<Rightarrow> int list \<Rightarrow> (int \<rightharpoonup> string)" where
  "fetchGroupNames client groupIds =
     fold (\<lambda>groupId groupNames.
             case GetPermissionsGroup client groupId of
               TransportError \<Rightarrow> groupNames
             | Response status body \<Rightarrow>
                 (case body of
                    None \<Rightarrow> groupNames
                  | Some name \<Rightarrow>
                      if status = 200 then groupNames(groupId \<mapsto> name) else groupNames))
          groupIds Map.empty"

section \<open>Matching names\<close>

text \<open>
  \<open>strings.ToLower\<close> and the classification of runes by \<open>unicode.IsLetter\<close> and
  \<open>unicode.IsDigit\<close> rest on the Unicode tables of the Go library: they are taken as
  given. \<open>ReplaceAll\<close> is only called to delete a one-byte separator.
\<close>

record Unicode =
  ToLower :: "string \<Rightarrow> string"
  lettersAndDigits :: "string \<Rightarrow> string"

definition ReplaceAll :: "string \<Rightarrow> char \<Rightarrow> string" where
  "ReplaceAll s old = filter (\<lambda>x. x \<noteq> old) s"

definition normalizeName :: "Unicode \<Rightarrow> string \<Rightarrow> string" where
  "normalizeName U name =
     lettersAndDigits U
       (ReplaceAll (ReplaceAll (ReplaceAll (ToLower U name) CHR '' '') CHR ''_'') CHR ''-'')"

text \<open>The tables restricted to ASCII, for names written in ASCII.\<close>

definition asciiLower :: "char \<Rightarrow> char" where
  "asciiLower c =
     (case map_of (zip ''ABCDEFGHIJKLMNOPQRSTUVWXYZ'' ''abcdefghijklmnopqrstuvwxyz'') c of
        None \<Rightarrow> c
      | Some l \<Rightarrow> l)"

definition asciiLetterOrDigit :: "char \<Rightarrow> bool" where
  "asciiLetterOrDigit c =
     (c \<in> set ''abcdefghijklmnopqrstuvwxyzABCDEFGHIJKLMNOPQRSTUVWXYZ0123456789'')"

definition ascii :: Unicode where
  "ascii = \<lparr>ToLower = map asciiLower, lettersAndDigits = filter asciiLetterOrDigit\<rparr>"

section \<open>The permission expander\<close>

text \<open>
  The first loop of \<open>makeCollectionPermissionsGraphFromModel\<close>: the permissions of the
  plan, stored in the map of the graph. It returns at the first null field or duplicate.
\<close>

fun seedPermissions :: "CollectionPermission list \<Rightarrow> GroupsMap \<Rightarrow> error + GroupsMap" where
  "seedPermissions [] groups = Inr groups"
| "seedPermissions (p # permissions) groups =
     (case Group p of
        None \<Rightarrow> Inl NullGroup
      | Some g \<Rightarrow>
          (case Collection p of
             None \<Rightarrow> Inl NullCollection
           | Some collectionId \<Rightarrow>
               let groupId = FormatInt g;
                   colPermMap = (case groups groupId of None \<Rightarrow> Map.empty | Some m \<Rightarrow> m)
               in if colPermMap collectionId \<noteq> None
                  then Inl (DuplicatePermission groupId collectionId)
                  else seedPermissions permissions
                         (groups(groupId \<mapsto> colPermMap(collectionId \<mapsto> Permission p)))))"

text \<open>The distinct group ids of the plan, in the order of their first occurrence.\<close>

definition groupIdsOf :: "CollectionPermission list \<Rightarrow> int list" where
  "groupIdsOf permissions =
     fold (\<lambda>p groupIdsList.
             case Group p of
               None \<Rightarrow> groupIdsList
             | Some groupId \<Rightarrow>
                 if groupId \<in> set groupIdsList then groupIdsList
                 else groupIdsList @ [groupId])
          permissions []"

text \<open>
  The group collections: the direct children of the collections 5 and 4, each with the
  first group, in the order of the visit, whose name matches the child's. The map
  \<open>groupCollections\<close> and the map \<open>parentPermissions\<close> of the source are written and
  never read; only the reverse index \<open>collectionIdToGroupId\<close> is kept.
\<close>

definition namesMatch :: "Unicode \<Rightarrow> (int \<rightharpoonup> string) \<Rightarrow> string \<Rightarrow> int \<Rightarrow> bool" where
  "namesMatch U groupNames childCollectionName groupId =
     (case groupNames groupId of
        None \<Rightarrow> False
      | Some groupName \<Rightarrow> normalizeName U groupName = normalizeName U childCollectionName)"

definition identifyGroupCollection ::
  "Unicode \<Rightarrow> schedule \<Rightarrow> int list \<Rightarrow> (int \<rightharpoonup> string) \<Rightarrow> int \<times> CollectionInfo
     \<Rightarrow> (int \<rightharpoonup> int) \<Rightarrow> (int \<rightharpoonup> int)" where
  "identifyGroupCollection U sched groupIdsList groupNames child collectionIdToGroupId =
     (let childCollectionId = fst child; collectionInfo = snd child
      in if ParentID collectionInfo = 5 \<or> ParentID collectionInfo = 4
         then (case find (namesMatch U groupNames (Name collectionInfo))
                         (rangeSet (sched 2 childCollectionId) groupIdsList) of
                 None \<Rightarrow> collectionIdToGroupId
               | Some groupId \<Rightarrow> collectionIdToGroupId(childCollectionId \<mapsto> groupId))
         else collectionIdToGroupId)"

definition identifyGroupCollections ::
  "Unicode \<Rightarrow> schedule \<Rightarrow> (int \<times> CollectionInfo) list \<Rightarrow> int list \<Rightarrow> (int \<rightharpoonup> string)
     \<Rightarrow> (int \<rightharpoonup> int)" where
  "identifyGroupCollections U sched childCollectionsMap groupIdsList groupNames =
     fold (identifyGroupCollection U sched groupIdsList groupNames)
          (rangeMap (sched 1 0) childCollectionsMap) Map.empty"

definition isExplicitPermission :: "CollectionPermission list \<Rightarrow> int \<Rightarrow> string \<Rightarrow> bool" where
  "isExplicitPermission permissions groupId childCollectionIdStr =
     list_ex (\<lambda>p. Group p \<noteq> None \<and> Collection p \<noteq> None \<and>
                  Group p = Some groupId \<and> Collection p = Some childCollectionIdStr)
             permissions"

definition isChildCollectionInPlan :: "CollectionPermission list \<Rightarrow> string \<Rightarrow> bool" where
  "isChildCollectionInPlan permissions childCollectionIdStr =
     list_ex (\<lambda>p. Group p \<noteq> None \<and> Collection p \<noteq> None \<and>
                  Collection p = Some childCollectionIdStr)
             permissions"

text \<open>
  The permissions of the direct children of the collections 5 and 4: first the body of the
  loop over the groups, then the body of the loop over the collections, then the loop.
\<close>

definition applyGroupCollectionPermission ::
  "Unicode \<Rightarrow> CollectionPermission list \<Rightarrow> (int \<rightharpoonup> string) \<Rightarrow> int \<Rightarrow> CollectionInfo
     \<Rightarrow> int \<Rightarrow> GroupsMap \<Rightarrow> GroupsMap" where
  "applyGroupCollectionPermission U permissions groupNames childCollectionId collectionInfo
       groupId groups =
     (let groupIdStr = FormatInt groupId;
          childCollectionIdStr = Itoa childCollectionId;
          colPermMap = (case groups groupIdStr of None \<Rightarrow> Map.empty | Some m \<Rightarrow> m);
          groups1 = groups(groupIdStr \<mapsto> colPermMap)
      in if isExplicitPermission permissions groupId childCollectionIdStr then groups1
         else
           let permission =
                 (if namesMatch U groupNames (Name collectionInfo) groupId
                  then CollectionPermissionLevelWrite
                  else CollectionPermissionLevelRead)
           in if colPermMap childCollectionIdStr = None \<or>
                 (colPermMap childCollectionIdStr = Some CollectionPermissionLevelRead \<and>
                  permission = CollectionPermissionLevelWrite)
              then groups(groupIdStr \<mapsto> colPermMap(childCollectionIdStr \<mapsto> permission))
              else groups1)"

definition applyGroupCollection ::
  "Unicode \<Rightarrow> schedule \<Rightarrow> CollectionPermission list \<Rightarrow> int list \<Rightarrow> (int \<rightharpoonup> string)
     \<Rightarrow> int \<times> CollectionInfo \<Rightarrow> GroupsMap \<Rightarrow> GroupsMap" where
  "applyGroupCollection U sched permissions groupIdsList groupNames child groups =
     (let childCollectionId = fst child; collectionInfo = snd child
      in if ParentID collectionInfo \<noteq> 5 \<and> ParentID collectionInfo \<noteq> 4 then groups
         else fold (applyGroupCollectionPermission U permissions groupNames
                      childCollectionId collectionInfo)
                   (rangeSet (sched 4 childCollectionId) groupIdsList) groups)"

definition applyGroupCollections ::
  "Unicode \<Rightarrow> schedule \<Rightarrow> CollectionPermission list \<Rightarrow> (int \<times> CollectionInfo) list
     \<Rightarrow> int list \<Rightarrow> (int \<rightharpoonup> string) \<Rightarrow> GroupsMap \<Rightarrow> GroupsMap" where
  "applyGroupCollections U sched permissions childCollectionsMap groupIdsList groupNames groups =
     fold (applyGroupCollection U sched permissions groupIdsList groupNames)
          (rangeMap (sched 3 0) childCollectionsMap) groups"

text \<open>
  The permissions of the collections below a group collection. The id of the group
  collection is the first segment of the location after \<open>/5/\<close> or \<open>/4/\<close>.
\<close>

definition firstSegmentId :: "string \<Rightarrow> int" where
  "firstSegmentId rest =
     (case Split rest CHR ''/'' of
        [] \<Rightarrow> - 1
      | part # _ \<Rightarrow>
          if part \<noteq> [] then (case Atoi part of Some parsedId \<Rightarrow> parsedId | None \<Rightarrow> - 1)
          else - 1)"

definition groupCollectionIdFromLocation :: "string \<Rightarrow> int" where
  "groupCollectionIdFromLocation location =
     (if HasPrefix location ''/5/'' then firstSegmentId (TrimPrefix location ''/5/'')
      else if HasPrefix location ''/4/'' then firstSegmentId (TrimPrefix location ''/4/'')
      else - 1)"

definition applyRecursivePermission ::
  "CollectionPermission list \<Rightarrow> string \<Rightarrow> int \<Rightarrow> int \<Rightarrow> GroupsMap \<Rightarrow> GroupsMap" where
  "applyRecursivePermission permissions childCollectionIdStr owningGroupId groupId groups =
     (let groupIdStr = FormatInt groupId;
          colPermMap = (case groups groupIdStr of None \<Rightarrow> Map.empty | Some m \<Rightarrow> m);
          groups1 = groups(groupIdStr \<mapsto> colPermMap)
      in if isExplicitPermission permissions groupId childCollectionIdStr then groups1
         else
           let permission =
                 (if groupId = owningGroupId then CollectionPermissionLevelWrite
                  else CollectionPermissionLevelRead)
           in groups(groupIdStr \<mapsto> colPermMap(childCollectionIdStr \<mapsto> permission)))"

definition applyRecursive ::
  "schedule \<Rightarrow> CollectionPermission list \<Rightarrow> int list \<Rightarrow> (int \<rightharpoonup> int)
     \<Rightarrow> int \<times> CollectionInfo \<Rightarrow> GroupsMap \<Rightarrow> GroupsMap" where
  "applyRecursive sched permissions groupIdsList collectionIdToGroupId child groups =
     (let childCollectionId = fst child; location = Location (snd child)
      in if location = [] then groups
         else
           let groupCollectionId = groupCollectionIdFromLocation location
           in if groupCollectionId < 0 then groups
              else (case collectionIdToGroupId groupCollectionId of
                      None \<Rightarrow> groups
                    | Some owningGroupId \<Rightarrow>
                        let childCollectionIdStr = Itoa childCollectionId
                        in if isChildCollectionInPlan permissions childCollectionIdStr
                           then groups
                           else fold (applyRecursivePermission permissions
                                        childCollectionIdStr owningGroupId)
                                     (rangeSet (sched 6 childCollectionId) groupIdsList)
                                     groups))"

definition applyRecursivePermissions ::
  "schedule \<Rightarrow> CollectionPermission list \<Rightarrow> (int \<times> CollectionInfo) list \<Rightarrow> int list
     \<Rightarrow> (int \<rightharpoonup> int) \<Rightarrow> GroupsMap \<Rightarrow> GroupsMap" where
  "applyRecursivePermissions sched permissions childCollectionsMap groupIdsList
       collectionIdToGroupId groups =
     fold (applyRecursive sched permissions groupIdsList collectionIdToGroupId)
          (rangeMap (sched 5 0) childCollectionsMap) groups"

text \<open>
  The expansion proper, run once the listing has been fetched without an error: the group
  ids of the plan, their names, the group collections, then the two passes over the
  collections.
\<close>

definition expandChildCollections ::
  "Unicode \<Rightarrow> schedule \<Rightarrow> CollectionPermission list \<Rightarrow> Client
     \<Rightarrow> (int \<times> CollectionInfo) list \<Rightarrow> GroupsMap \<Rightarrow> GroupsMap" where
  "expandChildCollections U sched permissions client childCollectionsMap groups =
     (let groupIdsList = groupIdsOf permissions;
          groupNames = fetchGroupNames client groupIdsList;
          collectionIdToGroupId =
            identifyGroupCollections U sched childCollectionsMap groupIdsList groupNames;
          groups3 =
            applyGroupCollections U sched permissions childCollectionsMap groupIdsList
              groupNames groups
      in applyRecursivePermissions sched permissions childCollectionsMap groupIdsList
           collectionIdToGroupId groups3)"

text \<open>
  \<open>makeCollectionPermissionsGraphFromModel\<close> returns the graph (\<open>None\<close> for the nil
  pointer), the error diagnostics and the calls it made. A failed listing leaves an error
  in the diagnostics beside the graph of the plan's own permissions.
\<close>

definition makeCollectionPermissionsGraphFromModel ::
  "Unicode \<Rightarrow> schedule \<Rightarrow> CollectionGraphResourceModel
     \<Rightarrow> CollectionGraphResourceModel option \<Rightarrow> Client option
     \<Rightarrow> CollectionPermissionsGraph option \<times> error list \<times> call list" where
  "makeCollectionPermissionsGraphFromModel U sched data state client =
     (let permissions = Permissions data
      in case seedPermissions permissions Map.empty of
           Inl e \<Rightarrow> (None, [e], [])
         | Inr groups \<Rightarrow>
             let applyChildPermissions =
                   (case ApplyChildCollectionsPermissions data of None \<Rightarrow> True | Some b \<Rightarrow> b);
                 revision = (case state of None \<Rightarrow> Revision data | Some st \<Rightarrow> Revision st)
             in (case (if applyChildPermissions then client else None) of
                   None \<Rightarrow>
                     (Some \<lparr>Graph_Revision = revision, Graph_Groups = groups\<rparr>, [], [])
                 | Some cl \<Rightarrow>
                     let childCollectionsMap = fst (fetchChildCollections cl);
                         childDiags = snd (fetchChildCollections cl)
                     in if childDiags \<noteq> []
                        then (Some \<lparr>Graph_Revision = revision, Graph_Groups = groups\<rparr>,
                              childDiags, [CallListCollections])
                        else (Some \<lparr>Graph_Revision = revision,
                                    Graph_Groups =
                                      expandChildCollections U sched permissions cl
                                        childCollectionsMap groups\<rparr>,
                              [],
                              CallListCollections #
                              map CallGetPermissionsGroup (groupIdsOf permissions))))"

section \<open>The state filter\<close>

definition markChildCollection ::
  "int \<times> CollectionInfo \<Rightarrow> (string \<Rightarrow> bool) \<Rightarrow> (string \<Rightarrow> bool)" where
  "markChildCollection child childCollectionIds =
     (let collectionId = fst child; collectionInfo = snd child;
          location = Location collectionInfo
      in if ParentID collectionInfo = 0 then childCollectionIds
         else if HasPrefix location ''/5/'' \<or> HasPrefix location ''/4/''
         then (let parts = Split (Trim location CHR ''/'') CHR ''/''
               in if length parts > 1 then childCollectionIds(Itoa collectionId := True)
                  else childCollectionIds)
         else childCollectionIds)"

definition keepPermission :: "(string \<Rightarrow> bool) \<Rightarrow> CollectionPermission \<Rightarrow> bool" where
  "keepPermission childCollectionIds perm =
     (case Collection perm of
        Some collectionId \<Rightarrow> \<not> childCollectionIds collectionId
      | None \<Rightarrow> True)"

definition filterRecursivePermissions ::
  "schedule \<Rightarrow> CollectionPermission list \<Rightarrow> Client
     \<Rightarrow> CollectionPermission list \<times> error list" where
  "filterRecursivePermissions sched permissions client =
     (let childCollectionsMap = fst (fetchChildCollections client);
          fetchDiags = snd (fetchChildCollections client)
      in if fetchDiags \<noteq> [] then (permissions, fetchDiags)
         else
           let childCollectionIds =
                 fold markChildCollection (rangeMap (sched 7 0) childCollectionsMap)
                      (\<lambda>_. False)
           in (filter (keepPermission childCollectionIds) permissions, []))"

section \<open>The graph reconciler\<close>

text \<open>
  Modelled from the spec: \<open>checkMetabaseResponse\<close>, which the sources call and do not
  contain. A transport failure is an error, and so is a response whose status is outside
  the accepted set; both are fatal for the operation.
\<close>

definition checkMetabaseResponse :: "'a response \<Rightarrow> int list \<Rightarrow> string \<Rightarrow> error list" where
  "checkMetabaseResponse resp statusCodes operation =
     (case resp of
        TransportError \<Rightarrow> [RequestFailed operation]
      | Response status body \<Rightarrow>
          if status \<in> set statusCodes then [] else [UnexpectedStatus operation status])"

text \<open>
  The equality of two sets of the framework: as many elements, and every element of the
  first among those of the second.
\<close>

definition SetEqual :: "'a list \<Rightarrow> 'a list \<Rightarrow> bool" where
  "SetEqual xs ys = (length xs = length ys \<and> list_all (\<lambda>x. x \<in> set ys) xs)"

definition BoolEqual :: "bool option \<Rightarrow> bool option \<Rightarrow> bool" where
  "BoolEqual a b = (a = b)"


definition Update ::
  "Unicode \<Rightarrow> schedule \<Rightarrow> Client \<Rightarrow> CollectionGraphResourceModel
     \<Rightarrow> CollectionGraphResourceModel
     \<Rightarrow> CollectionGraphResourceModel option \<times> error list \<times> call list" where
  "Update U sched client plan state =
     (let data =
            (if ApplyChildCollectionsPermissions plan = None
             then plan\<lparr>ApplyChildCollectionsPermissions := Some True\<rparr> else plan);
          permissionsChanged = (\<not> SetEqual (Permissions data) (Permissions state));
          flagChanged =
            (ApplyChildCollectionsPermissions data \<noteq> None \<and>
             ApplyChildCollectionsPermissions state \<noteq> None \<and>
             \<not> BoolEqual (ApplyChildCollectionsPermissions data)
                          (ApplyChildCollectionsPermissions state))
      in if permissionsChanged \<or> flagChanged
         then
           let made = makeCollectionPermissionsGraphFromModel U sched data (Some state)
                        (Some client);
               calls = snd (snd made)
           in if fst (snd made) \<noteq> [] then (None, fst (snd made), calls)
              else (case fst made of
                      None \<Rightarrow> (None, [NilResponseBody], calls)
                    | Some body \<Rightarrow>
                        let updateResp = ReplaceCollectionPermissionsGraph client body;
                            updateDiags = checkMetabaseResponse updateResp [200]
                                            ''update collection graph'';
                            calls' = calls @ [CallReplaceCollectionPermissionsGraph body]
                        in if updateDiags \<noteq> [] then (None, updateDiags, calls')
                           else (case updateResp of
                                   Response _ (Some newRevision) \<Rightarrow>
                                     (Some (data\<lparr>Revision := newRevision\<rparr>), [], calls')
                                 | _ \<Rightarrow> (None, [NilResponseBody], calls')))
         else (Some (data\<lparr>Revision := Revision state\<rparr>), [], []))"

section \<open>Reading a graph\<close>

text \<open>The level a graph gives to a group key and a collection id, if any.\<close>

definition lookupPerm :: "GroupsMap \<Rightarrow> string \<Rightarrow> string \<Rightarrow> string option" where
  "lookupPerm groups groupIdStr collectionId =
     (case groups groupIdStr of None \<Rightarrow> None | Some colPermMap \<Rightarrow> colPermMap collectionId)"

section \<open>A sample deployment\<close>

text \<open>
  The group collection 16 \<open>Analytics\<close> under the collection 5, a collection 60 below it,
  the groups 7 \<open>Analytics\<close> and 8 \<open>Sales\<close>, and a plan with one permission for each
  group. The schedule \<open>insertionOrder\<close> visits every map in the order of insertion.
\<close>

definition sampleListing :: "Collection list" where
  "sampleListing =
     [\<lparr>Collection_Id = IdInt 16, Collection_Name = ''Analytics'',
       Collection_Location = Some ''/5/'', Collection_PersonalOwnerId = None\<rparr>,
      \<lparr>Collection_Id = IdInt 60, Collection_Name = ''Reports'',
       Collection_Location = Some ''/5/16/'', Collection_PersonalOwnerId = None\<rparr>]"

definition sampleClient :: Client where
  "sampleClient =
     \<lparr>ListCollections = Response 200 (Some sampleListing),
      GetPermissionsGroup =
        (\<lambda>g. if g = 7 then Response 200 (Some ''Analytics'')
              else if g = 8 then Response 200 (Some ''Sales'')
              else Response 404 None),
      GetCollectionPermissionsGraph = Response 200 (Some 3),
      ReplaceCollectionPermissionsGraph = (\<lambda>g. Response 200 (Some (Graph_Revision g + 1)))\<rparr>"

definition insertionOrder :: schedule where
  "insertionOrder = (\<lambda>_ _ _. 0)"

definition edge :: "int \<Rightarrow> string \<Rightarrow> string \<Rightarrow> CollectionPermission" where
  "edge g c l = \<lparr>Group = Some g, Collection = Some c, Permission = l\<rparr>"

definition samplePlan :: CollectionGraphResourceModel where
  "samplePlan =
     \<lparr>Revision = 0,
      Permissions = [edge 7 ''60'' ''read'', edge 8 ''root'' ''read''],
      ApplyChildCollectionsPermissions = Some True\<rparr>"



text \<open>The group collection of the sample tree.\<close>

definition sampleInfo :: CollectionInfo where
  "sampleInfo = \<lparr>ID = 16, ParentID = 5, Name = ''Analytics'', Location = ''/5/''\<rparr>"

text \<open>A plan with one permission, and the listing of its expansion as permissions.\<close>

definition ownerPlan :: CollectionGraphResourceModel where
  "ownerPlan =
     \<lparr>Revision = 0, Permissions = [edge 7 ''root'' ''read''],
      ApplyChildCollectionsPermissions = Some True\<rparr>"

definition ownerExpanded :: "CollectionPermission list" where
  "ownerExpanded = [edge 7 ''root'' ''read'', edge 7 ''16'' ''write'', edge 7 ''60'' ''write'']"

text \<open>The graph that the expander returns for that plan, and the graph with no group.\<close>

definition ownerGraph :: CollectionPermissionsGraph where
  "ownerGraph =
     \<lparr>Graph_Revision = 0,
      Graph_Groups =
        [''7'' \<mapsto> [''root'' \<mapsto> ''read'', ''16'' \<mapsto> ''write'', ''60'' \<mapsto> ''write'']]\<rparr>"

definition noGroups :: GroupsMap where
  "noGroups = Map.empty"

section \<open>Facts about the library functions\<close>

lemma digit_cases: "d < 10 \<Longrightarrow> d \<in> {0, 1, 2, 3, 4, 5, 6, 7, 8, Suc 8}"
  by (auto simp: less_Suc_eq numeral_eq_Suc)

lemma digitVal_digitChar: "d < 10 \<Longrightarrow> digitVal (digitChar d) = d"
  using digit_cases [of d] by (auto simp: digitChar_def digitVal_def)

lemma isDigitChar_digitChar: "d < 10 \<Longrightarrow> isDigitChar (digitChar d)"
  using digit_cases [of d] by (auto simp: digitChar_def isDigitChar_def)

lemma digits_all: "list_all isDigitChar (digits n)"
proof (induction n rule: digits.induct)
  case (1 n)
  show ?case
  proof (cases "n < 10")
    case True
    then show ?thesis by (simp add: digits.simps [of n] isDigitChar_digitChar)
  next
    case False
    with 1 show ?thesis by (simp add: digits.simps [of n] isDigitChar_digitChar)
  qed
qed

lemma digits_nonempty: "digits n \<noteq> []"
  by (simp add: digits.simps [of n])

lemma parseDigits_snoc: "parseDigits (ds @ [c]) = parseDigits ds * 10 + digitVal c"
  by (simp add: parseDigits_def)

lemma parseDigits_digits: "parseDigits (digits n) = n"
proof (induction n rule: digits.induct)
  case (1 n)
  show ?case
  proof (cases "n < 10")
    case True
    then show ?thesis
      by (simp add: digits.simps [of n] parseDigits_def digitVal_digitChar)
  next
    case False
    with 1 have "parseDigits (digits (n div 10)) = n div 10" by simp
    with False show ?thesis
      by (simp add: digits.simps [of n] parseDigits_snoc digitVal_digitChar)
  qed
qed

lemma digits_inj: "digits m = digits n \<Longrightarrow> m = n"
  by (metis parseDigits_digits)

lemma digits_no_minus: "digits n \<noteq> CHR ''-'' # ds"
proof
  assume "digits n = CHR ''-'' # ds"
  with digits_all [of n] have "isDigitChar CHR ''-''" by simp
  then show False by (simp add: isDigitChar_def)
qed

lemma Itoa_inj: "Itoa i = Itoa j \<Longrightarrow> i = j"
proof -
  assume eq: "Itoa i = Itoa j"
  consider "i < 0" "j < 0" | "i < 0" "\<not> j < 0" | "\<not> i < 0" "j < 0" | "\<not> i < 0" "\<not> j < 0"
    by blast
  then show "i = j"
  proof cases
    case 1
    with eq have "nat (- i) = nat (- j)" by (simp add: Itoa_def digits_inj)
    with 1 show ?thesis by simp
  next
    case 2
    with eq have "digits (nat j) = CHR ''-'' # digits (nat (- i))" by (simp add: Itoa_def)
    then show ?thesis using digits_no_minus by blast
  next
    case 3
    with eq show ?thesis using digits_no_minus [of "nat i"] by (simp add: Itoa_def)
  next
    case 4
    with eq have "nat i = nat j" by (simp add: Itoa_def digits_inj)
    with 4 show ?thesis by simp
  qed
qed

lemma FormatInt_inj: "FormatInt i = FormatInt j \<Longrightarrow> i = j"
  by (simp add: FormatInt_def Itoa_inj)

lemma fold_invariant:
  "(\<And>x s. x \<in> set xs \<Longrightarrow> P s \<Longrightarrow> P (f x s)) \<Longrightarrow> P s \<Longrightarrow> P (fold f xs s)"
  by (induction xs arbitrary: s) auto

lemma set_rangeSet: "set (rangeSet pr ks) = set ks"
  by (simp add: rangeSet_def)

lemma set_rangeMap: "set (rangeMap pr m) = set m"
  by (simp add: rangeMap_def)

lemma FormatInt_samples: "FormatInt 7 = ''7''" "FormatInt 8 = ''8''"
  by (simp_all add: FormatInt_def Itoa_def digits.simps digitChar_def)

section \<open>Facts about the seed and the shape of the result\<close>

lemma set_groupIds_fold:
  "set (fold (\<lambda>p groupIdsList.
             case Group p of
               None \<Rightarrow> groupIdsList
             | Some groupId \<Rightarrow>
                 if groupId \<in> set groupIdsList then groupIdsList
                 else groupIdsList @ [groupId]) ps acc) = set acc \<union> {g. \<exists>p\<in>set ps. Group p = Some g}"
  by (induction ps arbitrary: acc) (auto split: option.splits)

lemma set_groupIdsOf: "set (groupIdsOf ps) = {g. \<exists>p\<in>set ps. Group p = Some g}"
  by (simp add: groupIdsOf_def set_groupIds_fold)

lemma seed_lookup:
  "seedPermissions ps G = Inr G' \<Longrightarrow>
   lookupPerm G' k c = Some l \<longleftrightarrow>
     (lookupPerm G k c = Some l \<or>
      (\<exists>p\<in>set ps. \<exists>g. Group p = Some g \<and> k = FormatInt g \<and> Collection p = Some c \<and> Permission p = l))"
proof (induction ps arbitrary: G)
  case Nil
  then show ?case by simp
next
  case (Cons p ps)
  from Cons.prems obtain g cid where g: "Group p = Some g" and cid: "Collection p = Some cid"
    by (auto split: option.splits)
  let ?m = "case G (FormatInt g) of None \<Rightarrow> Map.empty | Some m \<Rightarrow> m"
  let ?G1 = "G(FormatInt g \<mapsto> ?m(cid \<mapsto> Permission p))"
  from Cons.prems g cid have fresh: "?m cid = None" and rest: "seedPermissions ps ?G1 = Inr G'"
    by (auto simp: Let_def split: if_splits)
  have l1: "lookupPerm ?G1 k c = Some l \<longleftrightarrow>
      (lookupPerm G k c = Some l \<or> (k = FormatInt g \<and> c = cid \<and> Permission p = l))"
    using fresh by (auto simp: lookupPerm_def split: option.splits)
  show ?case
    unfolding Cons.IH [OF rest] l1 using g cid by auto
qed

lemma seed_dom:
  "seedPermissions ps G = Inr G' \<Longrightarrow>
   dom G' = dom G \<union> {FormatInt g | g. \<exists>p\<in>set ps. Group p = Some g}"
proof (induction ps arbitrary: G)
  case Nil
  then show ?case by simp
next
  case (Cons p ps)
  from Cons.prems obtain g cid where g: "Group p = Some g" and cid: "Collection p = Some cid"
    by (auto split: option.splits)
  let ?m = "case G (FormatInt g) of None \<Rightarrow> Map.empty | Some m \<Rightarrow> m"
  let ?G1 = "G(FormatInt g \<mapsto> ?m(cid \<mapsto> Permission p))"
  from Cons.prems g cid have rest: "seedPermissions ps ?G1 = Inr G'"
    by (auto simp: Let_def split: if_splits)
  show ?case
    unfolding Cons.IH [OF rest] using g by auto
qed

lemma makeGraph_seed_error:
  "seedPermissions (Permissions data) Map.empty = Inl e \<Longrightarrow>
   makeCollectionPermissionsGraphFromModel U sched data state client = (None, [e], [])"
  by (simp add: makeCollectionPermissionsGraphFromModel_def)

lemma makeGraph_no_expansion:
  "seedPermissions (Permissions data) Map.empty = Inr groups \<Longrightarrow>
   ApplyChildCollectionsPermissions data = Some False \<or> client = None \<Longrightarrow>
   makeCollectionPermissionsGraphFromModel U sched data state client =
     (Some \<lparr>Graph_Revision = (case state of None \<Rightarrow> Revision data | Some st \<Rightarrow> Revision st),
            Graph_Groups = groups\<rparr>, [], [])"
  by (auto simp: makeCollectionPermissionsGraphFromModel_def Let_def)

lemma makeGraph_listing_error:
  "seedPermissions (Permissions data) Map.empty = Inr groups \<Longrightarrow>
   ApplyChildCollectionsPermissions data \<noteq> Some False \<Longrightarrow>
   snd (fetchChildCollections cl) \<noteq> [] \<Longrightarrow>
   makeCollectionPermissionsGraphFromModel U sched data state (Some cl) =
     (Some \<lparr>Graph_Revision = (case state of None \<Rightarrow> Revision data | Some st \<Rightarrow> Revision st),
            Graph_Groups = groups\<rparr>, snd (fetchChildCollections cl), [CallListCollections])"
  by (cases "ApplyChildCollectionsPermissions data")
     (auto simp: makeCollectionPermissionsGraphFromModel_def Let_def)

lemma makeGraph_expansion:
  "seedPermissions (Permissions data) Map.empty = Inr groups \<Longrightarrow>
   ApplyChildCollectionsPermissions data \<noteq> Some False \<Longrightarrow>
   snd (fetchChildCollections cl) = [] \<Longrightarrow>
   makeCollectionPermissionsGraphFromModel U sched data state (Some cl) =
     (Some \<lparr>Graph_Revision = (case state of None \<Rightarrow> Revision data | Some st \<Rightarrow> Revision st),
            Graph_Groups = expandChildCollections U sched (Permissions data) cl
                             (fst (fetchChildCollections cl)) groups\<rparr>,
      [], CallListCollections # map CallGetPermissionsGroup (groupIdsOf (Permissions data)))"
  by (cases "ApplyChildCollectionsPermissions data")
     (auto simp: makeCollectionPermissionsGraphFromModel_def Let_def)

lemma applyGroupCollectionPermission_dom:
  "dom (applyGroupCollectionPermission U ps names cid info g G) = insert (FormatInt g) (dom G)"
  by (auto simp: applyGroupCollectionPermission_def Let_def)

lemma applyRecursivePermission_dom:
  "dom (applyRecursivePermission ps c owner g G) = insert (FormatInt g) (dom G)"
  by (auto simp: applyRecursivePermission_def Let_def)

lemma applyGroupCollection_dom:
  assumes "FormatInt ` set gs \<subseteq> dom G"
  shows "dom (applyGroupCollection U sched ps gs names child G) = dom G"
proof -
  have "dom (fold (applyGroupCollectionPermission U ps names (fst child) (snd child))
               (rangeSet (sched 4 (fst child)) gs) G) = dom G"
    by (rule fold_invariant [where P = "\<lambda>G'. dom G' = dom G"])
       (use assms in \<open>auto simp: applyGroupCollectionPermission_dom set_rangeSet\<close>)
  then show ?thesis by (simp add: applyGroupCollection_def Let_def)
qed

lemma applyGroupCollections_dom:
  assumes "FormatInt ` set gs \<subseteq> dom G"
  shows "dom (applyGroupCollections U sched ps T gs names G) = dom G"
  unfolding applyGroupCollections_def
  by (rule fold_invariant [where P = "\<lambda>G'. dom G' = dom G"])
     (use assms in \<open>auto simp: applyGroupCollection_dom\<close>)

lemma applyRecursive_dom:
  assumes "FormatInt ` set gs \<subseteq> dom G"
  shows "dom (applyRecursive sched ps gs own child G) = dom G"
proof -
  have "dom (fold (applyRecursivePermission ps c owner) (rangeSet pr gs) G) = dom G" for c owner pr
    by (rule fold_invariant [where P = "\<lambda>G'. dom G' = dom G"])
       (use assms in \<open>auto simp: applyRecursivePermission_dom set_rangeSet\<close>)
  then show ?thesis by (simp add: applyRecursive_def Let_def split: option.splits)
qed

lemma applyRecursivePermissions_dom:
  assumes "FormatInt ` set gs \<subseteq> dom G"
  shows "dom (applyRecursivePermissions sched ps T gs own G) = dom G"
  unfolding applyRecursivePermissions_def
  by (rule fold_invariant [where P = "\<lambda>G'. dom G' = dom G"])
     (use assms in \<open>auto simp: applyRecursive_dom\<close>)

lemma seed_groupIds_dom:
  assumes "seedPermissions ps Map.empty = Inr G"
  shows "dom G = FormatInt ` set (groupIdsOf ps)"
  using seed_dom [OF assms] by (auto simp: set_groupIdsOf)

lemma expandChildCollections_dom:
  assumes "seedPermissions ps Map.empty = Inr G"
  shows "dom (expandChildCollections U sched ps cl T G) = dom G"
  using seed_groupIds_dom [OF assms]
  by (simp add: expandChildCollections_def Let_def applyRecursivePermissions_dom
        applyGroupCollections_dom)

lemma makeGraph_cases:
  assumes "makeCollectionPermissionsGraphFromModel U sched data state client = (Some G, diags, calls)"
  obtains groups where "seedPermissions (Permissions data) Map.empty = Inr groups"
    and "Graph_Groups G = groups \<or>
         (\<exists>cl. client = Some cl \<and> diags = [] \<and> snd (fetchChildCollections cl) = [] \<and>
            ApplyChildCollectionsPermissions data \<noteq> Some False \<and>
            Graph_Groups G = expandChildCollections U sched (Permissions data) cl
                               (fst (fetchChildCollections cl)) groups)"
proof (cases "seedPermissions (Permissions data) Map.empty")
  case (Inl e)
  with assms show ?thesis by (simp add: makeGraph_seed_error)
next
  case (Inr groups)
  show ?thesis
  proof (cases "ApplyChildCollectionsPermissions data = Some False \<or> client = None")
    case True
    from makeGraph_no_expansion [OF Inr True] assms that [OF Inr] show ?thesis by auto
  next
    case False
    then obtain cl where cl: "client = Some cl" and t: "ApplyChildCollectionsPermissions data \<noteq> Some False"
      by auto
    show ?thesis
    proof (cases "snd (fetchChildCollections cl) = []")
      case True
      from makeGraph_expansion [OF Inr t True] assms cl True t that [OF Inr] show ?thesis by auto
    next
      case False
      from makeGraph_listing_error [OF Inr t False] assms cl that [OF Inr] show ?thesis by auto
    qed
  qed
qed

lemma colPermMap_lookup:
  "(case G k of None \<Rightarrow> Map.empty | Some m \<Rightarrow> m) c = lookupPerm G k c"
  by (simp add: lookupPerm_def split: option.splits)



lemma makeGraph_revision:
  assumes "makeCollectionPermissionsGraphFromModel U sched data (Some st) client = (Some G, diags, calls)"
  shows "Graph_Revision G = Revision st"
proof (cases "seedPermissions (Permissions data) Map.empty")
  case (Inl e)
  with assms show ?thesis by (simp add: makeGraph_seed_error)
next
  case (Inr groups)
  show ?thesis
  proof (cases "ApplyChildCollectionsPermissions data = Some False \<or> client = None")
    case True
    from makeGraph_no_expansion [OF Inr True] assms show ?thesis by auto
  next
    case False
    then obtain cl where cl: "client = Some cl" and t: "ApplyChildCollectionsPermissions data \<noteq> Some False"
      by auto
    show ?thesis
    proof (cases "snd (fetchChildCollections cl) = []")
      case True
      from makeGraph_expansion [OF Inr t True, of U sched "Some st"] assms cl show ?thesis by auto
    next
      case False
      from makeGraph_listing_error [OF Inr t False, of U sched "Some st"] assms cl show ?thesis by auto
    qed
  qed
qed

section \<open>The propagation toggle\<close>

text \<open>
  C6. When the toggle \<open>apply_child_collections_permissions\<close> is false, the graph that
  the expander returns holds exactly the permissions of the plan: the seed itself, with the
  same group keys, the same collection ids and the same levels, whatever the client would
  answer; no call is made and no error is raised.
\<close>

theorem propagation_toggle_identity:
  assumes "ApplyChildCollectionsPermissions data = Some False"
    and "makeCollectionPermissionsGraphFromModel U sched data state client = (Some G, diags, calls)"
  shows "diags = [] \<and> calls = [] \<and>
         seedPermissions (Permissions data) Map.empty = Inr (Graph_Groups G) \<and>
         (\<forall>k c l. lookupPerm (Graph_Groups G) k c = Some l \<longleftrightarrow>
            (\<exists>p\<in>set (Permissions data). \<exists>g. Group p = Some g \<and> k = FormatInt g \<and>
                Collection p = Some c \<and> Permission p = l)) \<and>
         dom (Graph_Groups G) = {FormatInt g | g. \<exists>p\<in>set (Permissions data). Group p = Some g}"
proof -
  from assms obtain groups where
    seed: "seedPermissions (Permissions data) Map.empty = Inr groups" and
    G: "Graph_Groups G = groups" and d: "diags = []" and c: "calls = []"
    by (auto simp: makeCollectionPermissionsGraphFromModel_def Let_def split: sum.splits)
  have "\<forall>k c l. lookupPerm groups k c = Some l \<longleftrightarrow>
            (\<exists>p\<in>set (Permissions data). \<exists>g. Group p = Some g \<and> k = FormatInt g \<and>
                Collection p = Some c \<and> Permission p = l)"
    using seed_lookup [OF seed] by (simp add: lookupPerm_def)
  moreover have "dom groups = {FormatInt g | g. \<exists>p\<in>set (Permissions data). Group p = Some g}"
    using seed_dom [OF seed] by simp
  ultimately show ?thesis using seed G d c by simp
qed

theorem propagation_toggle_identity_witness:
  "ApplyChildCollectionsPermissions (samplePlan\<lparr>ApplyChildCollectionsPermissions := Some False\<rparr>)
     = Some False \<and>
   makeCollectionPermissionsGraphFromModel ascii insertionOrder
     (samplePlan\<lparr>ApplyChildCollectionsPermissions := Some False\<rparr>) None (Some sampleClient) =
     (Some \<lparr>Graph_Revision = 0,
            Graph_Groups = [''7'' \<mapsto> [''60'' \<mapsto> ''read''], ''8'' \<mapsto> [''root'' \<mapsto> ''read'']]\<rparr>,
      [], []) \<and>
   seedPermissions [edge 7 ''60'' ''read'', edge 8 ''root'' ''read''] Map.empty =
     Inr [''7'' \<mapsto> [''60'' \<mapsto> ''read''], ''8'' \<mapsto> [''root'' \<mapsto> ''read'']]"
proof -
  let ?data = "samplePlan\<lparr>ApplyChildCollectionsPermissions := Some False\<rparr>"
  have h1: "ApplyChildCollectionsPermissions ?data = Some False" by simp
  have h2: "makeCollectionPermissionsGraphFromModel ascii insertionOrder ?data None
              (Some sampleClient) =
            (Some \<lparr>Graph_Revision = 0,
               Graph_Groups = [''7'' \<mapsto> [''60'' \<mapsto> ''read''], ''8'' \<mapsto> [''root'' \<mapsto> ''read'']]\<rparr>,
             [], [])"
    by (simp add: makeCollectionPermissionsGraphFromModel_def samplePlan_def edge_def FormatInt_samples
          Let_def)
  from propagation_toggle_identity [OF h1 h2] h1 h2 show ?thesis
    by (simp add: samplePlan_def)
qed

section \<open>Malformed locations\<close>

text \<open>
  C8. A collection of the listing that is personal, or has no location, an empty location
  or the bare root \<open>/\<close>, or whose last location segment does not parse as an integer,
  contributes nothing: the listing is read without an error, the tree is the tree of the
  listing without that collection, and so is the expanded graph.
\<close>

lemma addChildCollection_malformed:
  assumes "Collection_PersonalOwnerId c \<noteq> None \<or>
           Collection_Location c = None \<or> Collection_Location c = Some [] \<or>
           Collection_Location c = Some ''/'' \<or>
           (\<exists>l. Collection_Location c = Some l \<and>
                Atoi (last (Split (Trim l CHR ''/'') CHR ''/'')) = None)"
  shows "addChildCollection c m = m"
  using assms by (auto simp: addChildCollection_def Let_def split: option.splits)

lemma fetchGroupNames_listing:
  "fetchGroupNames (client\<lparr>ListCollections := r\<rparr>) gs = fetchGroupNames client gs"
  by (simp add: fetchGroupNames_def)

theorem malformed_location_excluded:
  assumes "Collection_PersonalOwnerId c \<noteq> None \<or>
           Collection_Location c = None \<or> Collection_Location c = Some [] \<or>
           Collection_Location c = Some ''/'' \<or>
           (\<exists>l. Collection_Location c = Some l \<and>
                Atoi (last (Split (Trim l CHR ''/'') CHR ''/'')) = None)"
    and "ListCollections client = Response 200 (Some (before @ c # after))"
  shows "snd (fetchChildCollections client) = [] \<and>
         fetchChildCollections client =
           fetchChildCollections (client\<lparr>ListCollections := Response 200 (Some (before @ after))\<rparr>) \<and>
         makeCollectionPermissionsGraphFromModel U sched data state (Some client) =
           makeCollectionPermissionsGraphFromModel U sched data state
             (Some (client\<lparr>ListCollections := Response 200 (Some (before @ after))\<rparr>))"
proof -
  let ?client' = "client\<lparr>ListCollections := Response 200 (Some (before @ after))\<rparr>"
  have same: "fetchChildCollections client = fetchChildCollections ?client'"
    using assms(2) addChildCollection_malformed [OF assms(1)]
    by (simp add: fetchChildCollections_def)
  have ok: "snd (fetchChildCollections client) = []"
    using assms(2) by (simp add: fetchChildCollections_def)
  have names: "expandChildCollections U sched ps ?client' m g =
               expandChildCollections U sched ps client m g" for ps m g
    by (simp add: expandChildCollections_def fetchGroupNames_listing)
  have "makeCollectionPermissionsGraphFromModel U sched data state (Some client) =
        makeCollectionPermissionsGraphFromModel U sched data state (Some ?client')"
  proof (cases "seedPermissions (Permissions data) Map.empty")
    case (Inl e)
    then show ?thesis by (simp add: makeGraph_seed_error)
  next
    case (Inr groups)
    show ?thesis
    proof (cases "ApplyChildCollectionsPermissions data = Some False")
      case True
      with Inr show ?thesis by (simp add: makeGraph_no_expansion)
    next
      case False
      from ok same have ok': "snd (fetchChildCollections ?client') = []" by simp
      show ?thesis
        unfolding makeGraph_expansion [OF Inr False ok] makeGraph_expansion [OF Inr False ok']
        by (simp add: same [symmetric] names)
    qed
  qed
  with same ok show ?thesis by simp
qed

theorem malformed_location_excluded_witness:
  "snd (fetchChildCollections
          (sampleClient\<lparr>ListCollections := Response 200 (Some
             ([hd sampleListing] @
              \<lparr>Collection_Id = IdInt 61, Collection_Name = ''Broken'',
                Collection_Location = Some ''/5/sixteen/'', Collection_PersonalOwnerId = None\<rparr> #
              tl sampleListing))\<rparr>)) = [] \<and>
   fetchChildCollections
          (sampleClient\<lparr>ListCollections := Response 200 (Some
             ([hd sampleListing] @
              \<lparr>Collection_Id = IdInt 61, Collection_Name = ''Broken'',
                Collection_Location = Some ''/5/sixteen/'', Collection_PersonalOwnerId = None\<rparr> #
              tl sampleListing))\<rparr>) =
   fetchChildCollections
     (sampleClient\<lparr>ListCollections := Response 200 (Some
             ([hd sampleListing] @
              \<lparr>Collection_Id = IdInt 61, Collection_Name = ''Broken'',
                Collection_Location = Some ''/5/sixteen/'', Collection_PersonalOwnerId = None\<rparr> #
              tl sampleListing))\<rparr>
      \<lparr>ListCollections := Response 200 (Some ([hd sampleListing] @ tl sampleListing))\<rparr>) \<and>
   makeCollectionPermissionsGraphFromModel ascii insertionOrder samplePlan None
     (Some (sampleClient\<lparr>ListCollections := Response 200 (Some
             ([hd sampleListing] @
              \<lparr>Collection_Id = IdInt 61, Collection_Name = ''Broken'',
                Collection_Location = Some ''/5/sixteen/'', Collection_PersonalOwnerId = None\<rparr> #
              tl sampleListing))\<rparr>)) =
   makeCollectionPermissionsGraphFromModel ascii insertionOrder samplePlan None
     (Some (sampleClient\<lparr>ListCollections := Response 200 (Some
             ([hd sampleListing] @
              \<lparr>Collection_Id = IdInt 61, Collection_Name = ''Broken'',
                Collection_Location = Some ''/5/sixteen/'', Collection_PersonalOwnerId = None\<rparr> #
              tl sampleListing))\<rparr>
      \<lparr>ListCollections := Response 200 (Some ([hd sampleListing] @ tl sampleListing))\<rparr>))"
proof -
  let ?c = "\<lparr>Collection_Id = IdInt 61, Collection_Name = ''Broken'',
                Collection_Location = Some ''/5/sixteen/'', Collection_PersonalOwnerId = None\<rparr>"
  let ?client = "sampleClient\<lparr>ListCollections := Response 200 (Some
             ([hd sampleListing] @ ?c # tl sampleListing))\<rparr>"
  have h1: "Collection_PersonalOwnerId ?c \<noteq> None \<or>
           Collection_Location ?c = None \<or> Collection_Location ?c = Some [] \<or>
           Collection_Location ?c = Some ''/'' \<or>
           (\<exists>l. Collection_Location ?c = Some l \<and>
                Atoi (last (Split (Trim l CHR ''/'') CHR ''/'')) = None)"
    by (simp add: Atoi_def Trim_def isDigitChar_def)
  have h2: "ListCollections ?client = Response 200 (Some ([hd sampleListing] @ ?c # tl sampleListing))"
    by simp
  show ?thesis
    by (rule malformed_location_excluded [OF h1 h2])
qed

section \<open>The groups of the expansion\<close>

text \<open>
  C9. The group keys of the graph that the expander returns are exactly the groups of the
  permissions of the plan: the expansion never adds a permission for a group that the plan
  does not name.
\<close>

theorem expansion_group_domain:
  assumes "makeCollectionPermissionsGraphFromModel U sched data state client = (Some G, diags, calls)"
  shows "dom (Graph_Groups G) =
           {FormatInt g | g. \<exists>p\<in>set (Permissions data). Group p = Some g}"
proof -
  from assms obtain groups where seed: "seedPermissions (Permissions data) Map.empty = Inr groups"
    and G: "Graph_Groups G = groups \<or>
         (\<exists>cl. client = Some cl \<and> diags = [] \<and> snd (fetchChildCollections cl) = [] \<and>
            ApplyChildCollectionsPermissions data \<noteq> Some False \<and>
            Graph_Groups G = expandChildCollections U sched (Permissions data) cl
                               (fst (fetchChildCollections cl)) groups)"
    by (rule makeGraph_cases)
  have "dom (Graph_Groups G) = dom groups"
  proof (rule disjE [OF G])
    assume "Graph_Groups G = groups"
    then show ?thesis by simp
  next
    assume "\<exists>cl. client = Some cl \<and> diags = [] \<and> snd (fetchChildCollections cl) = [] \<and>
            ApplyChildCollectionsPermissions data \<noteq> Some False \<and>
            Graph_Groups G = expandChildCollections U sched (Permissions data) cl
                               (fst (fetchChildCollections cl)) groups"
    then obtain cl where "Graph_Groups G = expandChildCollections U sched (Permissions data) cl
                               (fst (fetchChildCollections cl)) groups" by blast
    then show ?thesis by (simp only: expandChildCollections_dom [OF seed])
  qed
  with seed_dom [OF seed] show ?thesis by simp
qed

theorem expansion_group_domain_witness:
  "dom (Graph_Groups \<lparr>Graph_Revision = 0,
            Graph_Groups = expandChildCollections ascii insertionOrder (Permissions samplePlan)
               sampleClient (fst (fetchChildCollections sampleClient))
               [''7'' \<mapsto> [''60'' \<mapsto> ''read''], ''8'' \<mapsto> [''root'' \<mapsto> ''read'']]\<rparr>) =
     {''7'', ''8''}"
proof -
  have seed: "seedPermissions (Permissions samplePlan) Map.empty =
                Inr [''7'' \<mapsto> [''60'' \<mapsto> ''read''], ''8'' \<mapsto> [''root'' \<mapsto> ''read'']]"
    by (simp add: samplePlan_def edge_def FormatInt_samples Let_def)
  have t: "ApplyChildCollectionsPermissions samplePlan \<noteq> Some False"
    by (simp add: samplePlan_def)
  have ok: "snd (fetchChildCollections sampleClient) = []"
    by (simp add: fetchChildCollections_def sampleClient_def)
  have h: "makeCollectionPermissionsGraphFromModel ascii insertionOrder samplePlan None
             (Some sampleClient) =
     (Some \<lparr>Graph_Revision = 0,
            Graph_Groups = expandChildCollections ascii insertionOrder (Permissions samplePlan)
               sampleClient (fst (fetchChildCollections sampleClient))
               [''7'' \<mapsto> [''60'' \<mapsto> ''read''], ''8'' \<mapsto> [''root'' \<mapsto> ''read'']]\<rparr>,
      [], CallListCollections # map CallGetPermissionsGroup (groupIdsOf (Permissions samplePlan)))"
    using makeGraph_expansion [OF seed t ok, of ascii insertionOrder None]
    by (simp add: samplePlan_def)
  have "{g. \<exists>p\<in>set (Permissions samplePlan). Group p = Some g} = {7, 8}"
    by (auto simp: samplePlan_def edge_def)
  then have "{FormatInt g | g. \<exists>p\<in>set (Permissions samplePlan). Group p = Some g} =
             FormatInt ` {7, 8}"
    by blast
  then have "{FormatInt g | g. \<exists>p\<in>set (Permissions samplePlan). Group p = Some g} = {''7'', ''8''}"
    by (simp add: FormatInt_samples)
  then show ?thesis
    by (simp only: expansion_group_domain [OF h])
qed

section \<open>The state filter is a restriction\<close>

text \<open>
  C10. Every permission that the state filter returns is a permission of its input, kept
  as it is; the filter returns no more permissions than it was given; and a permission
  whose collection is null is always kept.
\<close>

theorem filter_is_restriction:
  "set (fst (filterRecursivePermissions sched permissions client)) \<subseteq> set permissions \<and>
   length (fst (filterRecursivePermissions sched permissions client)) \<le> length permissions \<and>
   (\<forall>perm\<in>set permissions. Collection perm = None \<longrightarrow>
      perm \<in> set (fst (filterRecursivePermissions sched permissions client)))"
  by (auto simp: filterRecursivePermissions_def Let_def keepPermission_def)

theorem filter_is_restriction_witness:
  "\<lparr>Group = Some 7, Collection = None, Permission = ''read''\<rparr>
     \<in> set (fst (filterRecursivePermissions insertionOrder
                 [\<lparr>Group = Some 7, Collection = None, Permission = ''read''\<rparr>,
                  edge 7 ''60'' ''write''] sampleClient))"
  using filter_is_restriction [of insertionOrder
          "[\<lparr>Group = Some 7, Collection = None, Permission = ''read''\<rparr>, edge 7 ''60'' ''write'']"
          sampleClient]
  by simp

section \<open>Duplicate permissions\<close>




section \<open>The no-op path of Update\<close>

text \<open>
  C5, as the code has it. When the permission set of the plan equals the recorded one, and
  the recorded toggle is null or equals the toggle of the plan (null read as true),
  \<open>Update\<close> issues no call, raises no error, and stores the plan with the recorded
  revision. Otherwise, when the graph is built without an error, the calls of \<open>Update\<close>
  are those of the construction followed by one write of that graph, which carries the
  recorded revision.
\<close>

theorem update_noop_or_write:
  "(SetEqual (Permissions plan) (Permissions state) \<and>
    (ApplyChildCollectionsPermissions state = None \<or>
     (if ApplyChildCollectionsPermissions plan = None then Some True
      else ApplyChildCollectionsPermissions plan) = ApplyChildCollectionsPermissions state)
    \<longrightarrow>
    snd (snd (Update U sched client plan state)) = [] \<and>
    fst (snd (Update U sched client plan state)) = [] \<and>
    (\<exists>stored. fst (Update U sched client plan state) = Some stored \<and>
       Revision stored = Revision state \<and> Permissions stored = Permissions plan)) \<and>
   (\<not> (SetEqual (Permissions plan) (Permissions state) \<and>
       (ApplyChildCollectionsPermissions state = None \<or>
        (if ApplyChildCollectionsPermissions plan = None then Some True
         else ApplyChildCollectionsPermissions plan) = ApplyChildCollectionsPermissions state))
    \<longrightarrow>
    (\<forall>body calls.
       makeCollectionPermissionsGraphFromModel U sched
         (if ApplyChildCollectionsPermissions plan = None
          then plan\<lparr>ApplyChildCollectionsPermissions := Some True\<rparr> else plan)
         (Some state) (Some client) = (Some body, [], calls)
       \<longrightarrow>
       Graph_Revision body = Revision state \<and>
       snd (snd (Update U sched client plan state)) =
         calls @ [CallReplaceCollectionPermissionsGraph body]))"
proof (intro conjI impI allI)
  assume same: "SetEqual (Permissions plan) (Permissions state) \<and>
    (ApplyChildCollectionsPermissions state = None \<or>
     (if ApplyChildCollectionsPermissions plan = None then Some True
      else ApplyChildCollectionsPermissions plan) = ApplyChildCollectionsPermissions state)"
  then have u: "Update U sched client plan state =
      (Some ((if ApplyChildCollectionsPermissions plan = None
          then plan\<lparr>ApplyChildCollectionsPermissions := Some True\<rparr> else plan)
          \<lparr>Revision := Revision state\<rparr>), [], [])"
    by (auto simp: Update_def Let_def BoolEqual_def)
  show "snd (snd (Update U sched client plan state)) = []" by (simp add: u)
  show "fst (snd (Update U sched client plan state)) = []" by (simp add: u)
  show "\<exists>stored. fst (Update U sched client plan state) = Some stored \<and>
       Revision stored = Revision state \<and> Permissions stored = Permissions plan"
    by (simp add: u)
next
  fix body calls
  let ?data = "if ApplyChildCollectionsPermissions plan = None
          then plan\<lparr>ApplyChildCollectionsPermissions := Some True\<rparr> else plan"
  assume diff: "\<not> (SetEqual (Permissions plan) (Permissions state) \<and>
       (ApplyChildCollectionsPermissions state = None \<or>
        (if ApplyChildCollectionsPermissions plan = None then Some True
         else ApplyChildCollectionsPermissions plan) = ApplyChildCollectionsPermissions state))"
    and made: "makeCollectionPermissionsGraphFromModel U sched ?data (Some state) (Some client) =
                 (Some body, [], calls)"
  show "Graph_Revision body = Revision state"
    by (rule makeGraph_revision [OF made])
  have changed: "\<not> SetEqual (Permissions ?data) (Permissions state) \<or>
            (ApplyChildCollectionsPermissions ?data \<noteq> None \<and>
             ApplyChildCollectionsPermissions state \<noteq> None \<and>
             \<not> BoolEqual (ApplyChildCollectionsPermissions ?data)
                          (ApplyChildCollectionsPermissions state))"
    using diff by (auto simp: BoolEqual_def)
  show "snd (snd (Update U sched client plan state)) =
         calls @ [CallReplaceCollectionPermissionsGraph body]"
    unfolding Update_def Let_def using changed made
    by (auto simp: checkMetabaseResponse_def split: response.splits option.splits)
qed

theorem update_noop_or_write_witness:
  "snd (snd (Update ascii insertionOrder sampleClient samplePlan (samplePlan\<lparr>Revision := 3\<rparr>))) = [] \<and>
   fst (snd (Update ascii insertionOrder sampleClient samplePlan (samplePlan\<lparr>Revision := 3\<rparr>))) = [] \<and>
   (\<exists>stored. fst (Update ascii insertionOrder sampleClient samplePlan (samplePlan\<lparr>Revision := 3\<rparr>))
        = Some stored \<and> Revision stored = 3 \<and> Permissions stored = Permissions samplePlan) \<and>
   snd (snd (Update ascii insertionOrder sampleClient samplePlan
               \<lparr>Revision = 3, Permissions = [], ApplyChildCollectionsPermissions = Some True\<rparr>)) =
     (CallListCollections # map CallGetPermissionsGroup (groupIdsOf (Permissions samplePlan))) @
     [CallReplaceCollectionPermissionsGraph
        \<lparr>Graph_Revision = 3,
         Graph_Groups = expandChildCollections ascii insertionOrder (Permissions samplePlan)
               sampleClient (fst (fetchChildCollections sampleClient))
               [''7'' \<mapsto> [''60'' \<mapsto> ''read''], ''8'' \<mapsto> [''root'' \<mapsto> ''read'']]\<rparr>]"
proof -
  let ?state1 = "samplePlan\<lparr>Revision := 3\<rparr>"
  let ?state2 = "\<lparr>Revision = 3, Permissions = [], ApplyChildCollectionsPermissions = Some True\<rparr>"
  let ?data = "if ApplyChildCollectionsPermissions samplePlan = None
          then samplePlan\<lparr>ApplyChildCollectionsPermissions := Some True\<rparr> else samplePlan"
  have same: "SetEqual (Permissions samplePlan) (Permissions ?state1) \<and>
    (ApplyChildCollectionsPermissions ?state1 = None \<or>
     (if ApplyChildCollectionsPermissions samplePlan = None then Some True
      else ApplyChildCollectionsPermissions samplePlan) = ApplyChildCollectionsPermissions ?state1)"
    by (simp add: SetEqual_def samplePlan_def)
  have diff: "\<not> (SetEqual (Permissions samplePlan) (Permissions ?state2) \<and>
    (ApplyChildCollectionsPermissions ?state2 = None \<or>
     (if ApplyChildCollectionsPermissions samplePlan = None then Some True
      else ApplyChildCollectionsPermissions samplePlan) = ApplyChildCollectionsPermissions ?state2))"
    by (simp add: SetEqual_def samplePlan_def)
  have d: "?data = samplePlan" by (simp add: samplePlan_def)
  have seed: "seedPermissions (Permissions samplePlan) Map.empty =
                Inr [''7'' \<mapsto> [''60'' \<mapsto> ''read''], ''8'' \<mapsto> [''root'' \<mapsto> ''read'']]"
    by (simp add: samplePlan_def edge_def FormatInt_samples Let_def)
  have t: "ApplyChildCollectionsPermissions samplePlan \<noteq> Some False"
    by (simp add: samplePlan_def)
  have ok: "snd (fetchChildCollections sampleClient) = []"
    by (simp add: fetchChildCollections_def sampleClient_def)
  have made: "makeCollectionPermissionsGraphFromModel ascii insertionOrder ?data (Some ?state2)
             (Some sampleClient) =
     (Some \<lparr>Graph_Revision = 3,
            Graph_Groups = expandChildCollections ascii insertionOrder (Permissions samplePlan)
               sampleClient (fst (fetchChildCollections sampleClient))
               [''7'' \<mapsto> [''60'' \<mapsto> ''read''], ''8'' \<mapsto> [''root'' \<mapsto> ''read'']]\<rparr>,
      [], CallListCollections # map CallGetPermissionsGroup (groupIdsOf (Permissions samplePlan)))"
    unfolding d using makeGraph_expansion [OF seed t ok, of ascii insertionOrder "Some ?state2"]
    by simp
  note w1 = update_noop_or_write [of samplePlan ?state1 ascii insertionOrder sampleClient,
              THEN conjunct1, rule_format, OF same]
  note w2 = update_noop_or_write [of samplePlan ?state2 ascii insertionOrder sampleClient,
              THEN conjunct2, rule_format, OF diff made]
  from w1 w2 show ?thesis by simp
qed

text \<open>
  C5, as the claim states it, fails when the recorded toggle is null: the toggle of the
  plan differs from it, and still nothing is written.
\<close>

theorem update_null_toggle_counterexample:
  "ApplyChildCollectionsPermissions (samplePlan\<lparr>ApplyChildCollectionsPermissions := Some False\<rparr>)
     \<noteq> ApplyChildCollectionsPermissions
         (samplePlan\<lparr>ApplyChildCollectionsPermissions := None, Revision := 3\<rparr>) \<and>
   Update ascii insertionOrder sampleClient
     (samplePlan\<lparr>ApplyChildCollectionsPermissions := Some False\<rparr>)
     (samplePlan\<lparr>ApplyChildCollectionsPermissions := None, Revision := 3\<rparr>) =
   (Some (samplePlan\<lparr>ApplyChildCollectionsPermissions := Some False, Revision := 3\<rparr>), [], [])"
  by (simp add: Update_def Let_def SetEqual_def BoolEqual_def samplePlan_def)

section \<open>Facts about the two passes of the expansion\<close>

lemma fold_reach:
  assumes "x \<in> set xs"
    and "\<And>y s. y \<in> set xs \<Longrightarrow> P s \<Longrightarrow> P (f y s)"
    and "\<And>s. P s \<Longrightarrow> Q (f x s)"
    and "\<And>y s. y \<in> set xs \<Longrightarrow> Q s \<Longrightarrow> Q (f y s)"
    and "P s"
  shows "Q (fold f xs s)"
  using assms
proof (induction xs arbitrary: s)
  case Nil
  then show ?case by simp
next
  case (Cons a xs)
  show ?case
  proof (cases "a = x")
    case True
    have "Q (f x s)" using Cons.prems(3,5) by blast
    then have "Q (fold f xs (f x s))"
      by (rule fold_invariant [where P = Q, rotated]) (use Cons.prems(4) in auto)
    with True show ?thesis by simp
  next
    case False
    with Cons.prems(1) have x: "x \<in> set xs" by simp
    have "P (f a s)" using Cons.prems(2,5) by simp
    with Cons.IH [OF x] Cons.prems(2,3,4) have "Q (fold f xs (f a s))" by simp
    then show ?thesis by simp
  qed
qed

lemma levels_differ: "CollectionPermissionLevelRead \<noteq> CollectionPermissionLevelWrite"
  by (simp add: CollectionPermissionLevelRead_def CollectionPermissionLevelWrite_def)

lemma lookupPerm_upd:
  "lookupPerm (G(k \<mapsto> m)) k' c = (if k' = k then m c else lookupPerm G k' c)"
  by (simp add: lookupPerm_def)

lemma lookupPerm_touch:
  "lookupPerm (G(k \<mapsto> (case G k of None \<Rightarrow> Map.empty | Some m \<Rightarrow> m))) k' c = lookupPerm G k' c"
  by (simp add: lookupPerm_def split: option.splits)

lemma applyGroupCollectionPermission_lookup:
  "lookupPerm (applyGroupCollectionPermission U ps names cid info g G) k c =
     (if k = FormatInt g \<and> c = Itoa cid \<and> \<not> isExplicitPermission ps g (Itoa cid) \<and>
         (lookupPerm G k c = None \<or>
          (lookupPerm G k c = Some CollectionPermissionLevelRead \<and>
           namesMatch U names (Name info) g))
      then Some (if namesMatch U names (Name info) g then CollectionPermissionLevelWrite
                 else CollectionPermissionLevelRead)
      else lookupPerm G k c)"
  using levels_differ
  by (auto simp: applyGroupCollectionPermission_def Let_def lookupPerm_upd lookupPerm_touch
        colPermMap_lookup)

lemma applyRecursivePermission_lookup:
  "lookupPerm (applyRecursivePermission ps cstr owner g G) k c =
     (if k = FormatInt g \<and> c = cstr \<and> \<not> isExplicitPermission ps g cstr
      then Some (if g = owner then CollectionPermissionLevelWrite
                 else CollectionPermissionLevelRead)
      else lookupPerm G k c)"
  by (auto simp: applyRecursivePermission_def Let_def lookupPerm_upd lookupPerm_touch
        colPermMap_lookup)

lemma applyGroupCollection_preserves:
  assumes "\<And>g' G'. g' \<in> set gs \<Longrightarrow> P G' \<Longrightarrow>
             P (applyGroupCollectionPermission U ps names (fst child) (snd child) g' G')"
    and "P G"
  shows "P (applyGroupCollection U sched ps gs names child G)"
proof -
  have "P (fold (applyGroupCollectionPermission U ps names (fst child) (snd child))
               (rangeSet (sched 4 (fst child)) gs) G)"
    by (rule fold_invariant [where P = P]) (use assms in \<open>auto simp: set_rangeSet\<close>)
  with assms(2) show ?thesis by (simp add: applyGroupCollection_def Let_def)
qed

lemma applyGroupCollections_preserves:
  assumes "\<And>child g' G'. child \<in> set T \<Longrightarrow> g' \<in> set gs \<Longrightarrow> P G' \<Longrightarrow>
             P (applyGroupCollectionPermission U ps names (fst child) (snd child) g' G')"
    and "P G"
  shows "P (applyGroupCollections U sched ps T gs names G)"
  unfolding applyGroupCollections_def
proof (rule fold_invariant [where P = P])
  fix child G'
  assume c: "child \<in> set (rangeMap (sched 3 0) T)" and p: "P G'"
  show "P (applyGroupCollection U sched ps gs names child G')"
    by (rule applyGroupCollection_preserves [where P = P])
       (use assms(1) c p in \<open>auto simp: set_rangeMap\<close>)
qed (rule assms(2))

lemma applyGroupCollections_explicit:
  assumes "isExplicitPermission ps g c"
  shows "lookupPerm (applyGroupCollections U sched ps T gs names G) (FormatInt g) c =
         lookupPerm G (FormatInt g) c"
proof (rule applyGroupCollections_preserves
         [where P = "\<lambda>G'. lookupPerm G' (FormatInt g) c = lookupPerm G (FormatInt g) c"])
  fix child g' G'
  assume "lookupPerm G' (FormatInt g) c = lookupPerm G (FormatInt g) c"
  then show "lookupPerm (applyGroupCollectionPermission U ps names (fst child) (snd child) g' G')
               (FormatInt g) c = lookupPerm G (FormatInt g) c"
    using assms by (auto simp: applyGroupCollectionPermission_lookup dest: FormatInt_inj)
qed simp

lemma applyGroupCollections_write:
  assumes "lookupPerm G k c = Some CollectionPermissionLevelWrite"
  shows "lookupPerm (applyGroupCollections U sched ps T gs names G) k c =
         Some CollectionPermissionLevelWrite"
proof (rule applyGroupCollections_preserves
         [where P = "\<lambda>G'. lookupPerm G' k c = Some CollectionPermissionLevelWrite"])
  fix child g' G'
  assume "lookupPerm G' k c = Some CollectionPermissionLevelWrite"
  then show "lookupPerm (applyGroupCollectionPermission U ps names (fst child) (snd child) g' G')
               k c = Some CollectionPermissionLevelWrite"
    using levels_differ by (auto simp: applyGroupCollectionPermission_lookup)
qed (rule assms)

lemma applyGroupCollections_upgrade:
  assumes T: "(cid, info) \<in> set T" and par: "ParentID info = 5 \<or> ParentID info = 4"
    and g: "g \<in> set gs" and ne: "\<not> isExplicitPermission ps g (Itoa cid)"
    and nm: "namesMatch U names (Name info) g"
    and rd: "lookupPerm G (FormatInt g) (Itoa cid) = Some CollectionPermissionLevelRead"
  shows "lookupPerm (applyGroupCollections U sched ps T gs names G) (FormatInt g) (Itoa cid) =
         Some CollectionPermissionLevelWrite"
proof -
  let ?k = "FormatInt g" and ?c = "Itoa cid"
  let ?P = "\<lambda>G'. lookupPerm G' ?k ?c = Some CollectionPermissionLevelRead \<or>
                  lookupPerm G' ?k ?c = Some CollectionPermissionLevelWrite"
  let ?Q = "\<lambda>G'. lookupPerm G' ?k ?c = Some CollectionPermissionLevelWrite"
  have bodyP: "?P (applyGroupCollectionPermission U ps names cid' info' g' G')"
    if "?P G'" for cid' info' g' G'
    using that levels_differ by (auto simp: applyGroupCollectionPermission_lookup)
  have bodyQ: "?Q (applyGroupCollectionPermission U ps names cid' info' g' G')"
    if "?Q G'" for cid' info' g' G'
    using that levels_differ by (auto simp: applyGroupCollectionPermission_lookup)
  have bodyPQ: "?Q (applyGroupCollectionPermission U ps names cid info g G')" if "?P G'" for G'
    using that ne nm levels_differ by (auto simp: applyGroupCollectionPermission_lookup)
  have childP: "?P (applyGroupCollection U sched ps gs names child G')" if "?P G'" for child G'
    by (rule applyGroupCollection_preserves [where P = ?P]) (use that bodyP in auto)
  have childQ: "?Q (applyGroupCollection U sched ps gs names child G')" if "?Q G'" for child G'
    by (rule applyGroupCollection_preserves [where P = ?Q]) (use that bodyQ in auto)
  have childPQ: "?Q (applyGroupCollection U sched ps gs names (cid, info) G')" if "?P G'" for G'
  proof -
    have "?Q (fold (applyGroupCollectionPermission U ps names cid info)
                  (rangeSet (sched 4 cid) gs) G')"
      by (rule fold_reach [where P = ?P and Q = ?Q and x = g])
         (use g that bodyP bodyQ bodyPQ in \<open>auto simp: set_rangeSet\<close>)
    with par show ?thesis by (auto simp: applyGroupCollection_def Let_def)
  qed
  show ?thesis
    unfolding applyGroupCollections_def
    by (rule fold_reach [where P = ?P and Q = ?Q and x = "(cid, info)"])
       (use T rd childP childQ childPQ in \<open>auto simp: set_rangeMap\<close>)
qed

lemma addChildCollection_distinct:
  "distinct (map fst m) \<Longrightarrow> distinct (map fst (addChildCollection c m))"
  by (simp add: addChildCollection_def Let_def distinct_update split: option.splits)

lemma fetchChildCollections_distinct: "distinct (map fst (fst (fetchChildCollections cl)))"
proof -
  have "distinct (map fst (fold addChildCollection cs m))" if "distinct (map fst m)" for cs m
    using that by (induction cs arbitrary: m) (simp_all add: addChildCollection_distinct)
  then show ?thesis
    by (simp add: fetchChildCollections_def split: response.splits option.splits)
qed

lemma explicit_in_plan:
  "isExplicitPermission ps g c \<Longrightarrow> isChildCollectionInPlan ps c"
  by (auto simp: isExplicitPermission_def isChildCollectionInPlan_def list_ex_iff)

lemma groupCollectionId_empty: "groupCollectionIdFromLocation [] = - 1"
  by (simp add: groupCollectionIdFromLocation_def HasPrefix_def)

lemma applyRecursive_preserves:
  assumes "\<And>owner g' G'. g' \<in> set gs \<Longrightarrow> P G' \<Longrightarrow>
             P (applyRecursivePermission ps (Itoa (fst child)) owner g' G')"
    and "P G"
  shows "P (applyRecursive sched ps gs own child G)"
proof -
  have "P (fold (applyRecursivePermission ps (Itoa (fst child)) owner)
               (rangeSet (sched 6 (fst child)) gs) G)" for owner
    by (rule fold_invariant [where P = P]) (use assms in \<open>auto simp: set_rangeSet\<close>)
  with assms(2) show ?thesis by (simp add: applyRecursive_def Let_def split: option.splits)
qed

lemma applyRecursivePermissions_preserves:
  assumes "\<And>child owner g' G'. child \<in> set T \<Longrightarrow> g' \<in> set gs \<Longrightarrow> P G' \<Longrightarrow>
             P (applyRecursivePermission ps (Itoa (fst child)) owner g' G')"
    and "P G"
  shows "P (applyRecursivePermissions sched ps T gs own G)"
  unfolding applyRecursivePermissions_def
proof (rule fold_invariant [where P = P])
  fix child G'
  assume c: "child \<in> set (rangeMap (sched 5 0) T)" and p: "P G'"
  show "P (applyRecursive sched ps gs own child G')"
    by (rule applyRecursive_preserves [where P = P])
       (use assms(1) c p in \<open>auto simp: set_rangeMap\<close>)
qed (rule assms(2))

lemma applyRecursive_sets:
  assumes gc: "0 \<le> groupCollectionIdFromLocation (Location info)"
    and own: "own (groupCollectionIdFromLocation (Location info)) = Some owner"
    and np: "\<not> isChildCollectionInPlan ps (Itoa cid)"
    and g: "g \<in> set gs"
  shows "lookupPerm (applyRecursive sched ps gs own (cid, info) G) (FormatInt g) (Itoa cid) =
         Some (if g = owner then CollectionPermissionLevelWrite else CollectionPermissionLevelRead)"
proof -
  let ?v = "Some (if g = owner then CollectionPermissionLevelWrite
                  else CollectionPermissionLevelRead)"
  let ?Q = "\<lambda>G'. lookupPerm G' (FormatInt g) (Itoa cid) = ?v"
  have ne: "\<not> isExplicitPermission ps g' (Itoa cid)" for g'
    using np explicit_in_plan by blast
  have loc: "Location info \<noteq> []"
    using gc groupCollectionId_empty by auto
  have "?Q (fold (applyRecursivePermission ps (Itoa cid) owner)
              (rangeSet (sched 6 cid) gs) G)"
    by (rule fold_reach [where P = "\<lambda>_. True" and Q = ?Q and x = g])
       (use g ne in \<open>auto simp: set_rangeSet applyRecursivePermission_lookup dest: FormatInt_inj\<close>)
  with gc own np loc show ?thesis
    by (simp add: applyRecursive_def Let_def)
qed

lemma applyRecursivePermissions_sets:
  assumes dist: "distinct (map fst T)" and T: "(cid, info) \<in> set T"
    and gc: "0 \<le> groupCollectionIdFromLocation (Location info)"
    and own: "own (groupCollectionIdFromLocation (Location info)) = Some owner"
    and np: "\<not> isChildCollectionInPlan ps (Itoa cid)"
    and g: "g \<in> set gs"
  shows "lookupPerm (applyRecursivePermissions sched ps T gs own G) (FormatInt g) (Itoa cid) =
         Some (if g = owner then CollectionPermissionLevelWrite else CollectionPermissionLevelRead)"
proof -
  let ?v = "Some (if g = owner then CollectionPermissionLevelWrite
                  else CollectionPermissionLevelRead)"
  let ?Q = "\<lambda>G'. lookupPerm G' (FormatInt g) (Itoa cid) = ?v"
  have visit: "?Q (applyRecursive sched ps gs own (cid, info) G')" for G'
    by (rule applyRecursive_sets [where own = own and info = info and owner = owner,
          OF gc own np g])
  have other: "?Q (applyRecursive sched ps gs own child G')"
    if child: "child \<in> set T" and q: "?Q G'" for child G'
  proof (cases "fst child = cid")
    case True
    with child T dist have "child = (cid, info)"
      by (metis eq_key_imp_eq_value prod.collapse)
    with visit show ?thesis by simp
  next
    case False
    then have "Itoa (fst child) \<noteq> Itoa cid" using Itoa_inj by blast
    then show ?thesis
      by (intro applyRecursive_preserves [where P = ?Q])
         (use q in \<open>auto simp: applyRecursivePermission_lookup\<close>)
  qed
  show ?thesis
    unfolding applyRecursivePermissions_def
    by (rule fold_reach [where P = "\<lambda>_. True" and Q = ?Q and x = "(cid, info)"])
       (use T visit other in \<open>auto simp: set_rangeMap\<close>)
qed

lemma applyGroupCollection_guarded:
  assumes "\<And>g' G'. g' \<in> set gs \<Longrightarrow> ParentID (snd child) = 5 \<or> ParentID (snd child) = 4 \<Longrightarrow>
             P G' \<Longrightarrow>
             P (applyGroupCollectionPermission U ps names (fst child) (snd child) g' G')"
    and "P G"
  shows "P (applyGroupCollection U sched ps gs names child G)"
proof (cases "ParentID (snd child) = 5 \<or> ParentID (snd child) = 4")
  case False
  with assms(2) show ?thesis by (simp add: applyGroupCollection_def Let_def)
next
  case True
  have "P (fold (applyGroupCollectionPermission U ps names (fst child) (snd child))
               (rangeSet (sched 4 (fst child)) gs) G)"
    by (rule fold_invariant [where P = P]) (use assms True in \<open>auto simp: set_rangeSet\<close>)
  with True show ?thesis by (auto simp: applyGroupCollection_def Let_def)
qed

lemma applyGroupCollections_guarded:
  assumes "\<And>child g' G'. child \<in> set T \<Longrightarrow> g' \<in> set gs \<Longrightarrow>
             ParentID (snd child) = 5 \<or> ParentID (snd child) = 4 \<Longrightarrow> P G' \<Longrightarrow>
             P (applyGroupCollectionPermission U ps names (fst child) (snd child) g' G')"
    and "P G"
  shows "P (applyGroupCollections U sched ps T gs names G)"
  unfolding applyGroupCollections_def
proof (rule fold_invariant [where P = P])
  fix child G'
  assume c: "child \<in> set (rangeMap (sched 3 0) T)" and p: "P G'"
  show "P (applyGroupCollection U sched ps gs names child G')"
    by (rule applyGroupCollection_guarded [where P = P])
       (use assms(1) c p in \<open>auto simp: set_rangeMap\<close>)
qed (rule assms(2))

lemma applyRecursive_guarded:
  assumes "\<And>owner g' G'. g' \<in> set gs \<Longrightarrow>
             0 \<le> groupCollectionIdFromLocation (Location (snd child)) \<Longrightarrow>
             own (groupCollectionIdFromLocation (Location (snd child))) = Some owner \<Longrightarrow>
             \<not> isChildCollectionInPlan ps (Itoa (fst child)) \<Longrightarrow> P G' \<Longrightarrow>
             P (applyRecursivePermission ps (Itoa (fst child)) owner g' G')"
    and "P G"
  shows "P (applyRecursive sched ps gs own child G)"
proof -
  have "P (fold (applyRecursivePermission ps (Itoa (fst child)) owner)
               (rangeSet (sched 6 (fst child)) gs) G)"
    if "0 \<le> groupCollectionIdFromLocation (Location (snd child))"
      and "own (groupCollectionIdFromLocation (Location (snd child))) = Some owner"
      and "\<not> isChildCollectionInPlan ps (Itoa (fst child))" for owner
    by (rule fold_invariant [where P = P]) (use assms that in \<open>auto simp: set_rangeSet\<close>)
  with assms(2) show ?thesis
    by (auto simp: applyRecursive_def Let_def split: option.splits)
qed

lemma applyRecursivePermissions_guarded:
  assumes "\<And>child owner g' G'. child \<in> set T \<Longrightarrow> g' \<in> set gs \<Longrightarrow>
             0 \<le> groupCollectionIdFromLocation (Location (snd child)) \<Longrightarrow>
             own (groupCollectionIdFromLocation (Location (snd child))) = Some owner \<Longrightarrow>
             \<not> isChildCollectionInPlan ps (Itoa (fst child)) \<Longrightarrow> P G' \<Longrightarrow>
             P (applyRecursivePermission ps (Itoa (fst child)) owner g' G')"
    and "P G"
  shows "P (applyRecursivePermissions sched ps T gs own G)"
  unfolding applyRecursivePermissions_def
proof (rule fold_invariant [where P = P])
  fix child G'
  assume c: "child \<in> set (rangeMap (sched 5 0) T)" and p: "P G'"
  show "P (applyRecursive sched ps gs own child G')"
    by (rule applyRecursive_guarded [where P = P])
       (use assms(1) c p in \<open>auto simp: set_rangeMap\<close>)
qed (rule assms(2))

lemma applyRecursivePermissions_explicit:
  assumes "isExplicitPermission ps g c"
  shows "lookupPerm (applyRecursivePermissions sched ps T gs own G) (FormatInt g) c =
         lookupPerm G (FormatInt g) c"
proof (rule applyRecursivePermissions_guarded
         [where P = "\<lambda>G'. lookupPerm G' (FormatInt g) c = lookupPerm G (FormatInt g) c"])
  fix child owner g' G'
  assume "lookupPerm G' (FormatInt g) c = lookupPerm G (FormatInt g) c"
  then show "lookupPerm (applyRecursivePermission ps (Itoa (fst child)) owner g' G')
               (FormatInt g) c = lookupPerm G (FormatInt g) c"
    using assms by (auto simp: applyRecursivePermission_lookup dest: FormatInt_inj)
qed simp

lemma expansion_explicit:
  assumes "isExplicitPermission ps g c"
  shows "lookupPerm (expandChildCollections U sched ps cl T G) (FormatInt g) c =
         lookupPerm G (FormatInt g) c"
  by (simp add: expandChildCollections_def Let_def applyRecursivePermissions_explicit [OF assms]
        applyGroupCollections_explicit [OF assms])

lemma expansion_provenance:
  assumes "lookupPerm (expandChildCollections U sched ps cl T G) k c = Some l"
  shows "lookupPerm G k c = Some l \<or>
         (\<exists>child\<in>set T. c = Itoa (fst child) \<and>
            (ParentID (snd child) = 5 \<or> ParentID (snd child) = 4 \<or>
             0 \<le> groupCollectionIdFromLocation (Location (snd child))))"
proof -
  let ?A = "\<exists>child\<in>set T. c = Itoa (fst child) \<and>
            (ParentID (snd child) = 5 \<or> ParentID (snd child) = 4 \<or>
             0 \<le> groupCollectionIdFromLocation (Location (snd child)))"
  let ?R = "\<lambda>G'. lookupPerm G' k c = Some l \<longrightarrow> lookupPerm G k c = Some l \<or> ?A"
  let ?gs = "groupIdsOf ps"
  let ?names = "fetchGroupNames cl ?gs"
  have r3: "?R (applyGroupCollections U sched ps T ?gs ?names G)"
  proof (rule applyGroupCollections_guarded [where P = ?R])
    fix child g' G'
    assume "child \<in> set T" "ParentID (snd child) = 5 \<or> ParentID (snd child) = 4" "?R G'"
    then show "?R (applyGroupCollectionPermission U ps ?names (fst child) (snd child) g' G')"
      by (auto simp: applyGroupCollectionPermission_lookup split: if_splits)
  qed simp
  have "?R (applyRecursivePermissions sched ps T ?gs
              (identifyGroupCollections U sched T ?gs ?names)
              (applyGroupCollections U sched ps T ?gs ?names G))"
  proof (rule applyRecursivePermissions_guarded [where P = ?R])
    fix child owner g' G'
    assume "child \<in> set T" "0 \<le> groupCollectionIdFromLocation (Location (snd child))" "?R G'"
    then show "?R (applyRecursivePermission ps (Itoa (fst child)) owner g' G')"
      by (auto simp: applyRecursivePermission_lookup split: if_splits)
  qed (rule r3)
  with assms show ?thesis by (simp add: expandChildCollections_def Let_def)
qed

lemma seed_fields:
  "seedPermissions ps G = Inr G' \<Longrightarrow> p \<in> set ps \<Longrightarrow>
   \<exists>g c. Group p = Some g \<and> Collection p = Some c"
proof (induction ps arbitrary: G)
  case Nil
  then show ?case by simp
next
  case (Cons a ps)
  from Cons.prems(1) obtain g c where a: "Group a = Some g" "Collection a = Some c"
    by (auto split: option.splits)
  with Cons.prems(1) obtain G1 where "seedPermissions ps G1 = Inr G'"
    by (auto simp: Let_def split: if_splits)
  with Cons.IH Cons.prems(2) a show ?case by auto
qed

lemma seed_member:
  assumes "seedPermissions ps Map.empty = Inr G"
  shows "p \<in> set ps \<longleftrightarrow>
         (\<exists>g c. Group p = Some g \<and> Collection p = Some c \<and>
                lookupPerm G (FormatInt g) c = Some (Permission p))"
proof
  assume p: "p \<in> set ps"
  from seed_fields [OF assms p] obtain g c where f: "Group p = Some g" "Collection p = Some c"
    by blast
  with p seed_lookup [OF assms, of "FormatInt g" c "Permission p"]
  show "\<exists>g c. Group p = Some g \<and> Collection p = Some c \<and>
                lookupPerm G (FormatInt g) c = Some (Permission p)"
    by auto
next
  assume "\<exists>g c. Group p = Some g \<and> Collection p = Some c \<and>
                lookupPerm G (FormatInt g) c = Some (Permission p)"
  then obtain g c where f: "Group p = Some g" "Collection p = Some c"
    and l: "lookupPerm G (FormatInt g) c = Some (Permission p)" by blast
  from l seed_lookup [OF assms, of "FormatInt g" c "Permission p"]
  obtain q g' where q: "q \<in> set ps" "Group q = Some g'" "FormatInt g = FormatInt g'"
      "Collection q = Some c" "Permission q = Permission p"
    by (auto simp: lookupPerm_def)
  then have "g' = g" using FormatInt_inj by auto
  with q f have "q = p" by simp
  with q show "p \<in> set ps" by simp
qed

lemma fetchGroupNames_fold:
  "fold (\<lambda>groupId groupNames.
             case GetPermissionsGroup client groupId of
               TransportError \<Rightarrow> groupNames
             | Response status body \<Rightarrow>
                 (case body of
                    None \<Rightarrow> groupNames
                  | Some name \<Rightarrow>
                      if status = 200 then groupNames(groupId \<mapsto> name) else groupNames))
          xs m g =
   (if g \<in> set xs
    then (case GetPermissionsGroup client g of
            Response status (Some name) \<Rightarrow> if status = 200 then Some name else m g
          | _ \<Rightarrow> m g)
    else m g)"
  by (induction xs arbitrary: m) (auto split: response.splits option.splits)

lemma fetchGroupNames_same:
  "set xs = set ys \<Longrightarrow> fetchGroupNames client xs = fetchGroupNames client ys"
  by (rule ext) (simp add: fetchGroupNames_def fetchGroupNames_fold)

lemma identifyGroupCollections_fold:
  "fold (identifyGroupCollection U sched gs names) xs m x \<noteq> None \<longleftrightarrow>
     m x \<noteq> None \<or>
     (\<exists>child\<in>set xs. fst child = x \<and>
        (ParentID (snd child) = 5 \<or> ParentID (snd child) = 4) \<and>
        (\<exists>g\<in>set gs. namesMatch U names (Name (snd child)) g))"
proof (induction xs arbitrary: m)
  case Nil
  then show ?case by simp
next
  case (Cons a xs)
  have step: "identifyGroupCollection U sched gs names a m x \<noteq> None \<longleftrightarrow>
      m x \<noteq> None \<or>
      (fst a = x \<and> (ParentID (snd a) = 5 \<or> ParentID (snd a) = 4) \<and>
        (\<exists>g\<in>set gs. namesMatch U names (Name (snd a)) g))"
    by (auto simp: identifyGroupCollection_def Let_def set_rangeSet find_None_iff
          split: option.splits dest: find_Some_iff [THEN iffD1])
       (metis find_None_iff not_Some_eq set_rangeSet)+
  show ?case
    unfolding fold_Cons comp_apply Cons.IH step by auto
qed

lemma identifyGroupCollections_owned:
  "identifyGroupCollections U sched T gs names x \<noteq> None \<longleftrightarrow>
     (\<exists>child\<in>set T. fst child = x \<and>
        (ParentID (snd child) = 5 \<or> ParentID (snd child) = 4) \<and>
        (\<exists>g\<in>set gs. namesMatch U names (Name (snd child)) g))"
  unfolding identifyGroupCollections_def identifyGroupCollections_fold
  by (simp add: set_rangeMap)

lemma applyGroupCollections_monotone:
  assumes "lookupPerm G k c \<noteq> None"
  shows "lookupPerm (applyGroupCollections U sched ps T gs names G) k c \<noteq> None"
  by (rule applyGroupCollections_guarded [where P = "\<lambda>G'. lookupPerm G' k c \<noteq> None"])
     (use assms in \<open>auto simp: applyGroupCollectionPermission_lookup\<close>)

lemma applyRecursivePermissions_monotone:
  assumes "lookupPerm G k c \<noteq> None"
  shows "lookupPerm (applyRecursivePermissions sched ps T gs own G) k c \<noteq> None"
  by (rule applyRecursivePermissions_guarded [where P = "\<lambda>G'. lookupPerm G' k c \<noteq> None"])
     (use assms in \<open>auto simp: applyRecursivePermission_lookup\<close>)

lemma applyGroupCollections_covers:
  assumes T: "(cid, info) \<in> set T" and par: "ParentID info = 5 \<or> ParentID info = 4"
    and g: "g \<in> set gs" and ne: "\<not> isExplicitPermission ps g (Itoa cid)"
  shows "lookupPerm (applyGroupCollections U sched ps T gs names G) (FormatInt g) (Itoa cid)
           \<noteq> None"
proof -
  let ?Q = "\<lambda>G'. lookupPerm G' (FormatInt g) (Itoa cid) \<noteq> None"
  have bodyQ: "?Q (applyGroupCollectionPermission U ps names cid' info' g' G')"
    if "?Q G'" for cid' info' g' G'
    using that by (auto simp: applyGroupCollectionPermission_lookup)
  have visitQ: "?Q (applyGroupCollectionPermission U ps names cid info g G')" for G'
    using ne by (auto simp: applyGroupCollectionPermission_lookup)
  have childQ: "?Q (applyGroupCollection U sched ps gs names child G')" if "?Q G'" for child G'
    by (rule applyGroupCollection_guarded [where P = ?Q]) (use that bodyQ in auto)
  have childV: "?Q (applyGroupCollection U sched ps gs names (cid, info) G')" for G'
  proof -
    have "?Q (fold (applyGroupCollectionPermission U ps names cid info)
                  (rangeSet (sched 4 cid) gs) G')"
      by (rule fold_reach [where P = "\<lambda>_. True" and Q = ?Q and x = g])
         (use g bodyQ visitQ in \<open>auto simp: set_rangeSet\<close>)
    with par show ?thesis by (auto simp: applyGroupCollection_def Let_def)
  qed
  show ?thesis
    unfolding applyGroupCollections_def
    by (rule fold_reach [where P = "\<lambda>_. True" and Q = ?Q and x = "(cid, info)"])
       (use T childQ childV in \<open>auto simp: set_rangeMap\<close>)
qed

lemma explicit_seeded:
  assumes "seedPermissions ps Map.empty = Inr G"
  shows "isExplicitPermission ps g c \<longleftrightarrow> lookupPerm G (FormatInt g) c \<noteq> None"
proof
  assume "isExplicitPermission ps g c"
  then obtain p where "p \<in> set ps" "Group p = Some g" "Collection p = Some c"
    by (auto simp: isExplicitPermission_def list_ex_iff)
  with seed_member [OF assms, of p] show "lookupPerm G (FormatInt g) c \<noteq> None" by auto
next
  assume "lookupPerm G (FormatInt g) c \<noteq> None"
  then obtain l where "lookupPerm G (FormatInt g) c = Some l" by auto
  with seed_lookup [OF assms, of "FormatInt g" c l]
  obtain p g' where "p \<in> set ps" "Group p = Some g'" "FormatInt g = FormatInt g'"
      "Collection p = Some c"
    by (auto simp: lookupPerm_def)
  then show "isExplicitPermission ps g c"
    using FormatInt_inj by (auto simp: isExplicitPermission_def list_ex_iff)
qed

lemma in_plan_seeded:
  assumes "seedPermissions ps Map.empty = Inr G"
  shows "isChildCollectionInPlan ps c \<longleftrightarrow> (\<exists>g. lookupPerm G (FormatInt g) c \<noteq> None)"
proof -
  have "isChildCollectionInPlan ps c \<longleftrightarrow> (\<exists>g. isExplicitPermission ps g c)"
    by (auto simp: isChildCollectionInPlan_def isExplicitPermission_def list_ex_iff)
  then show ?thesis by (simp add: explicit_seeded [OF assms])
qed

text \<open>What the first run leaves in the graph.\<close>

lemma expansion_covers_group_collections:
  assumes seed: "seedPermissions ps Map.empty = Inr G0"
    and T: "(cid, info) \<in> set T" and par: "ParentID info = 5 \<or> ParentID info = 4"
    and g: "g \<in> set (groupIdsOf ps)"
  shows "lookupPerm (expandChildCollections U sched ps cl T G0) (FormatInt g) (Itoa cid) \<noteq> None"
proof (cases "isExplicitPermission ps g (Itoa cid)")
  case True
  with explicit_seeded [OF seed] expansion_explicit [OF True] show ?thesis by simp
next
  case False
  show ?thesis
    unfolding expandChildCollections_def Let_def
    by (intro applyRecursivePermissions_monotone applyGroupCollections_covers [OF T par g False])
qed

lemma expansion_covers_subtrees:
  assumes seed: "seedPermissions ps Map.empty = Inr G0"
    and dist: "distinct (map fst T)"
    and T: "(cid, info) \<in> set T"
    and gc: "0 \<le> groupCollectionIdFromLocation (Location info)"
    and own: "identifyGroupCollections U sched T (groupIdsOf ps)
                (fetchGroupNames cl (groupIdsOf ps))
                (groupCollectionIdFromLocation (Location info)) \<noteq> None"
    and g: "g \<in> set (groupIdsOf ps)"
  shows "\<exists>g'. lookupPerm (expandChildCollections U sched ps cl T G0) (FormatInt g') (Itoa cid)
               \<noteq> None"
proof (cases "isChildCollectionInPlan ps (Itoa cid)")
  case True
  then obtain g' where e: "isExplicitPermission ps g' (Itoa cid)"
    by (auto simp: isChildCollectionInPlan_def isExplicitPermission_def list_ex_iff)
  with explicit_seeded [OF seed] expansion_explicit [OF e] show ?thesis by metis
next
  case False
  from own obtain owner where o: "identifyGroupCollections U sched T (groupIdsOf ps)
                (fetchGroupNames cl (groupIdsOf ps))
                (groupCollectionIdFromLocation (Location info)) = Some owner" by auto
  have "lookupPerm (expandChildCollections U sched ps cl T G0) (FormatInt g) (Itoa cid) =
        Some (if g = owner then CollectionPermissionLevelWrite
              else CollectionPermissionLevelRead)"
    unfolding expandChildCollections_def Let_def
    by (rule applyRecursivePermissions_sets
          [where info = info and owner = owner
             and own = "identifyGroupCollections U sched T (groupIdsOf ps)
                          (fetchGroupNames cl (groupIdsOf ps))",
           OF dist T gc o False g])
  then show ?thesis by (metis option.distinct(1))
qed

text \<open>The second run changes nothing.\<close>

lemma applyGroupCollections_identity:
  assumes dom: "\<And>g. g \<in> set gs \<Longrightarrow> G (FormatInt g) \<noteq> None"
    and expl: "\<And>g child. g \<in> set gs \<Longrightarrow> child \<in> set T \<Longrightarrow>
                 ParentID (snd child) = 5 \<or> ParentID (snd child) = 4 \<Longrightarrow>
                 isExplicitPermission ps g (Itoa (fst child))"
  shows "applyGroupCollections U sched ps T gs names G = G"
proof (rule applyGroupCollections_guarded [where P = "\<lambda>G'. G' = G"])
  fix child g' G'
  assume "child \<in> set T" "g' \<in> set gs" "ParentID (snd child) = 5 \<or> ParentID (snd child) = 4"
    and "G' = G"
  with dom [of g'] expl [of g' child]
  show "applyGroupCollectionPermission U ps names (fst child) (snd child) g' G' = G"
    by (auto simp: applyGroupCollectionPermission_def Let_def)
qed simp

lemma applyRecursivePermissions_identity:
  assumes plan: "\<And>child. child \<in> set T \<Longrightarrow> gs \<noteq> [] \<Longrightarrow>
                 0 \<le> groupCollectionIdFromLocation (Location (snd child)) \<Longrightarrow>
                 own (groupCollectionIdFromLocation (Location (snd child))) \<noteq> None \<Longrightarrow>
                 isChildCollectionInPlan ps (Itoa (fst child))"
  shows "applyRecursivePermissions sched ps T gs own G = G"
proof (rule applyRecursivePermissions_guarded [where P = "\<lambda>G'. G' = G"])
  fix child owner g' G'
  assume a: "child \<in> set T" "g' \<in> set gs"
    "0 \<le> groupCollectionIdFromLocation (Location (snd child))"
    "own (groupCollectionIdFromLocation (Location (snd child))) = Some owner"
    "\<not> isChildCollectionInPlan ps (Itoa (fst child))"
  from a(2) have "gs \<noteq> []" by auto
  with plan [of child] a
  show "applyRecursivePermission ps (Itoa (fst child)) owner g' G' = G"
    by auto
qed simp

lemma expansion_idempotent:
  assumes seed: "seedPermissions E Map.empty = Inr G0"
    and dist: "distinct (map fst T)"
    and listing: "seedPermissions E' Map.empty = Inr (expandChildCollections U sched E cl T G0)"
  shows "expandChildCollections U sched' E' cl T (expandChildCollections U sched E cl T G0) =
         expandChildCollections U sched E cl T G0"
proof -
  let ?G = "expandChildCollections U sched E cl T G0"
  let ?gs = "groupIdsOf E" and ?gs' = "groupIdsOf E'"
  let ?names = "fetchGroupNames cl ?gs" and ?names' = "fetchGroupNames cl ?gs'"
  let ?own = "identifyGroupCollections U sched T ?gs ?names"
  let ?own' = "identifyGroupCollections U sched' T ?gs' ?names'"
  have domG: "dom ?G = FormatInt ` set ?gs"
    using expandChildCollections_dom [OF seed] seed_groupIds_dom [OF seed] by simp
  have domG': "dom ?G = FormatInt ` set ?gs'"
    using seed_groupIds_dom [OF listing] by simp
  have "inj FormatInt" by (rule injI) (rule FormatInt_inj)
  with domG domG' have gs: "set ?gs' = set ?gs" by (metis inj_image_eq_iff)
  have names: "?names' = ?names" by (rule fetchGroupNames_same [OF gs])
  have owned: "?own' x \<noteq> None \<longleftrightarrow> ?own x \<noteq> None" for x
    unfolding identifyGroupCollections_owned names gs ..
  have s3: "applyGroupCollections U sched' E' T ?gs' ?names' ?G = ?G"
  proof (rule applyGroupCollections_identity)
    fix g assume "g \<in> set ?gs'"
    with domG' show "?G (FormatInt g) \<noteq> None" by blast
  next
    fix g child
    assume g: "g \<in> set ?gs'" and c: "child \<in> set T"
      and par: "ParentID (snd child) = 5 \<or> ParentID (snd child) = 4"
    from c have c': "(fst child, snd child) \<in> set T" by simp
    from g gs have g': "g \<in> set ?gs" by simp
    from expansion_covers_group_collections [OF seed c' par g']
    show "isExplicitPermission E' g (Itoa (fst child))"
      unfolding explicit_seeded [OF listing] .
  qed
  have s4: "applyRecursivePermissions sched' E' T ?gs' ?own' ?G = ?G"
  proof (rule applyRecursivePermissions_identity)
    fix child
    assume c: "child \<in> set T" and ne: "?gs' \<noteq> []"
      and gc: "0 \<le> groupCollectionIdFromLocation (Location (snd child))"
      and own: "?own' (groupCollectionIdFromLocation (Location (snd child))) \<noteq> None"
    from c have c': "(fst child, snd child) \<in> set T" by simp
    from ne gs obtain g where g: "g \<in> set ?gs" by (metis all_not_in_conv set_empty)
    from own owned have own0: "?own (groupCollectionIdFromLocation (Location (snd child))) \<noteq> None"
      by simp
    from expansion_covers_subtrees [OF seed dist c' gc own0 g]
    show "isChildCollectionInPlan E' (Itoa (fst child))"
      unfolding in_plan_seeded [OF listing] .
  qed
  show ?thesis
    by (subst (1) expandChildCollections_def) (simp only: Let_def s3 s4)
qed

section \<open>Facts about locations and the state filter\<close>

lemma Split_nonempty: "Split s sep \<noteq> []"
  by (induction s) (auto split: list.splits)

lemma Split_head_nonempty:
  "Split s sep = part # parts \<Longrightarrow> part \<noteq> [] \<Longrightarrow> s \<noteq> [] \<and> hd s \<noteq> sep"
  by (cases s) (auto split: if_splits)

lemma dropWhile_stop: "\<not> P x \<Longrightarrow> dropWhile P (ys @ x # zs) = dropWhile P ys @ x # zs"
  by (induction ys) auto

lemma Trim_anchor:
  assumes "a \<noteq> CHR ''/''" and "x \<noteq> CHR ''/''"
  shows "Trim (CHR ''/'' # a # CHR ''/'' # x # xs) CHR ''/'' =
         a # CHR ''/'' # x # rev (dropWhile (\<lambda>c. c = CHR ''/'') (rev xs))"
proof -
  have "dropWhile (\<lambda>c. c = CHR ''/'') (rev xs @ x # [CHR ''/'', a]) =
        dropWhile (\<lambda>c. c = CHR ''/'') (rev xs) @ x # [CHR ''/'', a]"
    using assms(2) by (rule dropWhile_stop)
  with assms(1) show ?thesis by (simp add: Trim_def)
qed

lemma Split_anchor:
  assumes "a \<noteq> CHR ''/''"
  shows "length (Split (a # CHR ''/'' # s) CHR ''/'') > 1"
  using assms Split_nonempty [of s "CHR ''/''"]
  by (cases "Split s CHR ''/''") auto

lemma firstSegmentId_start:
  assumes "0 \<le> firstSegmentId rest"
  shows "rest \<noteq> [] \<and> hd rest \<noteq> CHR ''/''"
proof -
  from assms obtain part parts where "Split rest CHR ''/'' = part # parts" "part \<noteq> []"
    by (auto simp: firstSegmentId_def split: list.splits if_splits)
  then show ?thesis by (rule Split_head_nonempty)
qed

lemma nested_below_group_collection:
  assumes "0 \<le> groupCollectionIdFromLocation location"
  shows "(HasPrefix location ''/5/'' \<or> HasPrefix location ''/4/'') \<and>
         length (Split (Trim location CHR ''/'') CHR ''/'') > 1"
proof -
  from assms obtain a where a: "a = CHR ''5'' \<or> a = CHR ''4''"
    and pre: "HasPrefix location [CHR ''/'', a, CHR ''/'']"
    and seg: "0 \<le> firstSegmentId (TrimPrefix location [CHR ''/'', a, CHR ''/''])"
    by (auto simp: groupCollectionIdFromLocation_def split: if_splits)
  from pre have loc: "location = [CHR ''/'', a, CHR ''/''] @ drop 3 location"
    by (metis HasPrefix_def append_take_drop_id length_Cons list.size(3) numeral_3_eq_3)
  from pre seg have "0 \<le> firstSegmentId (drop 3 location)"
    by (simp add: TrimPrefix_def numeral_3_eq_3)
  from firstSegmentId_start [OF this] obtain x xs where rest: "drop 3 location = x # xs"
    and x: "x \<noteq> CHR ''/''"
    by (cases "drop 3 location") auto
  from a have a': "a \<noteq> CHR ''/''" by auto
  from loc rest have "location = CHR ''/'' # a # CHR ''/'' # x # xs" by simp
  then have "Trim location CHR ''/'' =
             a # CHR ''/'' # x # rev (dropWhile (\<lambda>c. c = CHR ''/'') (rev xs))"
    using Trim_anchor [OF a' x] by simp
  then have "length (Split (Trim location CHR ''/'') CHR ''/'') > 1"
    using Split_anchor [OF a'] by simp
  with a pre show ?thesis by auto
qed

lemma markChildCollection_fold:
  "fold markChildCollection xs S c \<longleftrightarrow>
     S c \<or> (\<exists>child\<in>set xs. c = Itoa (fst child) \<and> ParentID (snd child) \<noteq> 0 \<and>
              (HasPrefix (Location (snd child)) ''/5/'' \<or> HasPrefix (Location (snd child)) ''/4/'') \<and>
              length (Split (Trim (Location (snd child)) CHR ''/'') CHR ''/'') > 1)"
proof (induction xs arbitrary: S)
  case Nil
  then show ?case by simp
next
  case (Cons a xs)
  have step: "markChildCollection a S c \<longleftrightarrow>
      S c \<or> (c = Itoa (fst a) \<and> ParentID (snd a) \<noteq> 0 \<and>
              (HasPrefix (Location (snd a)) ''/5/'' \<or> HasPrefix (Location (snd a)) ''/4/'') \<and>
              length (Split (Trim (Location (snd a)) CHR ''/'') CHR ''/'') > 1)"
    by (auto simp: markChildCollection_def Let_def)
  show ?case
    unfolding fold_Cons comp_apply Cons.IH step by auto
qed

lemma filter_members:
  assumes "snd (fetchChildCollections cl) = []"
  shows "p \<in> set (fst (filterRecursivePermissions sched ps cl)) \<longleftrightarrow>
         p \<in> set ps \<and>
         (\<forall>c. Collection p = Some c \<longrightarrow>
            \<not> (\<exists>child\<in>set (fst (fetchChildCollections cl)). c = Itoa (fst child) \<and>
                 ParentID (snd child) \<noteq> 0 \<and>
                 (HasPrefix (Location (snd child)) ''/5/'' \<or>
                  HasPrefix (Location (snd child)) ''/4/'') \<and>
                 length (Split (Trim (Location (snd child)) CHR ''/'') CHR ''/'') > 1))"
  using assms
  by (auto simp: filterRecursivePermissions_def Let_def keepPermission_def
        markChildCollection_fold set_rangeMap split: option.splits)

lemma filter_unavailable:
  assumes "snd (fetchChildCollections cl) \<noteq> []"
  shows "fst (filterRecursivePermissions sched ps cl) = ps"
  using assms by (simp add: filterRecursivePermissions_def Let_def)

section \<open>Facts about the sample deployment\<close>

lemma sample_tree:
  "fetchChildCollections sampleClient =
     ([(16, \<lparr>ID = 16, ParentID = 5, Name = ''Analytics'', Location = ''/5/''\<rparr>),
       (60, \<lparr>ID = 60, ParentID = 16, Name = ''Reports'', Location = ''/5/16/''\<rparr>)], [])"
  by (simp add: fetchChildCollections_def sampleClient_def sampleListing_def
        addChildCollection_def Trim_def Atoi_def isDigitChar_def parseDigits_def digitVal_def
        collectionIdInt_def Let_def)

lemma sample_numbers: "Itoa 16 = ''16''" "Itoa 60 = ''60''"
  by (simp_all add: Itoa_def digits.simps digitChar_def)

lemma ownerPlan_expansion:
  "expandChildCollections ascii insertionOrder [edge 7 ''root'' ''read''] sampleClient
     [(16, \<lparr>ID = 16, ParentID = 5, Name = ''Analytics'', Location = ''/5/''\<rparr>),
      (60, \<lparr>ID = 60, ParentID = 16, Name = ''Reports'', Location = ''/5/16/''\<rparr>)]
     [''7'' \<mapsto> [''root'' \<mapsto> ''read'']] =
   [''7'' \<mapsto> [''root'' \<mapsto> ''read'', ''16'' \<mapsto> ''write'', ''60'' \<mapsto> ''write'']]"
  by (simp add: expandChildCollections_def groupIdsOf_def edge_def fetchGroupNames_def
        sampleClient_def identifyGroupCollections_def identifyGroupCollection_def
        rangeMap_def rangeSet_def insertionOrder_def namesMatch_def normalizeName_def ascii_def
        ReplaceAll_def asciiLower_def asciiLetterOrDigit_def
        applyGroupCollections_def applyGroupCollection_def applyGroupCollectionPermission_def
        applyRecursivePermissions_def applyRecursive_def applyRecursivePermission_def
        isExplicitPermission_def isChildCollectionInPlan_def sample_numbers FormatInt_samples
        groupCollectionIdFromLocation_def firstSegmentId_def HasPrefix_def TrimPrefix_def
        Atoi_def isDigitChar_def parseDigits_def digitVal_def
        CollectionPermissionLevelRead_def CollectionPermissionLevelWrite_def Let_def)

lemma ownerPlan_made:
  "makeCollectionPermissionsGraphFromModel ascii insertionOrder ownerPlan None (Some sampleClient) =
     (Some \<lparr>Graph_Revision = 0,
            Graph_Groups =
              [''7'' \<mapsto> [''root'' \<mapsto> ''read'', ''16'' \<mapsto> ''write'', ''60'' \<mapsto> ''write'']]\<rparr>,
      [], [CallListCollections, CallGetPermissionsGroup 7])"
proof -
  have seed: "seedPermissions (Permissions ownerPlan) Map.empty = Inr [''7'' \<mapsto> [''root'' \<mapsto> ''read'']]"
    by (simp add: ownerPlan_def edge_def FormatInt_samples Let_def)
  have t: "ApplyChildCollectionsPermissions ownerPlan \<noteq> Some False"
    by (simp add: ownerPlan_def)
  have ok: "snd (fetchChildCollections sampleClient) = []"
    by (simp add: sample_tree)
  have gs: "groupIdsOf (Permissions ownerPlan) = [7]"
    by (simp add: groupIdsOf_def ownerPlan_def edge_def)
  have p: "Permissions ownerPlan = [edge 7 ''root'' ''read'']" "Revision ownerPlan = 0"
    by (simp_all add: ownerPlan_def)
  show ?thesis
    unfolding makeGraph_expansion [OF seed t ok] gs
    by (simp add: p sample_tree ownerPlan_expansion)
qed

lemma ownerExpanded_listing:
  "seedPermissions ownerExpanded Map.empty =
     Inr [''7'' \<mapsto> [''root'' \<mapsto> ''read'', ''16'' \<mapsto> ''write'', ''60'' \<mapsto> ''write'']]"
  by (simp add: ownerExpanded_def edge_def FormatInt_samples Let_def)

lemma sample_marks:
  "fold markChildCollection
     (rangeMap (insertionOrder 7 0) (fst (fetchChildCollections sampleClient)))
     (\<lambda>_. False) = (\<lambda>_. False)(''60'' := True)"
  by (simp add: sample_tree rangeMap_def insertionOrder_def markChildCollection_def
        HasPrefix_def Trim_def sample_numbers Let_def)

lemma ownerPlan_region:
  "fst (filterRecursivePermissions insertionOrder (Permissions ownerPlan) sampleClient) =
     Permissions ownerPlan"
  unfolding filterRecursivePermissions_def Let_def sample_marks
  by (simp add: sample_tree ownerPlan_def edge_def keepPermission_def)

lemma ownerExpanded_filtered:
  "fst (filterRecursivePermissions insertionOrder ownerExpanded sampleClient) =
     [edge 7 ''root'' ''read'', edge 7 ''16'' ''write'']"
  unfolding filterRecursivePermissions_def Let_def sample_marks
  by (simp add: sample_tree ownerExpanded_def edge_def keepPermission_def)

section \<open>The filter against the expansion\<close>

text \<open>
  C1, as the code has it. Let the expander return a graph without an error, let \<open>E'\<close>
  be any listing of that graph as permissions, and let the filter keep every permission of
  the plan. Then the filter applied to \<open>E'\<close> keeps every permission of the plan, and every
  other permission it keeps is on a collection of the tree whose parent is the collection
  5 or 4 (a group collection, which the filter keeps by design) or 0 (which the filter
  never strips).
\<close>

theorem filter_keeps_explicit_and_anchor_children:
  assumes made: "makeCollectionPermissionsGraphFromModel U sched data state (Some cl) =
                   (Some G, [], calls)"
    and listing: "seedPermissions E' Map.empty = Inr (Graph_Groups G)"
    and region: "fst (filterRecursivePermissions sched' (Permissions data) cl) = Permissions data"
  shows "set (Permissions data) \<subseteq> set (fst (filterRecursivePermissions sched' E' cl)) \<and>
         (\<forall>p\<in>set (fst (filterRecursivePermissions sched' E' cl)).
            p \<notin> set (Permissions data) \<longrightarrow>
            (\<exists>cid info. (cid, info) \<in> set (fst (fetchChildCollections cl)) \<and>
               Collection p = Some (Itoa cid) \<and>
               (ParentID info = 5 \<or> ParentID info = 4 \<or> ParentID info = 0)))"
proof -
  let ?E = "Permissions data"
  let ?T = "fst (fetchChildCollections cl)"
  from made obtain groups where seed: "seedPermissions ?E Map.empty = Inr groups"
    and G: "Graph_Groups G = groups \<or>
         (\<exists>cl'. Some cl = Some cl' \<and> [] = ([]::error list) \<and> snd (fetchChildCollections cl') = [] \<and>
            ApplyChildCollectionsPermissions data \<noteq> Some False \<and>
            Graph_Groups G = expandChildCollections U sched ?E cl'
                               (fst (fetchChildCollections cl')) groups)"
    by (rule makeGraph_cases)
  have plain: "set E' = set ?E" if "Graph_Groups G = groups"
    using seed_member [OF seed] seed_member [OF listing] that by auto
  have explicit: "isExplicitPermission ?E g c"
    if "p \<in> set ?E" "Group p = Some g" "Collection p = Some c" for p g c
    using that by (auto simp: isExplicitPermission_def list_ex_iff)
  have sub: "set ?E \<subseteq> set E'"
  proof
    fix p assume p: "p \<in> set ?E"
    then obtain g c where f: "Group p = Some g" "Collection p = Some c"
      and l: "lookupPerm groups (FormatInt g) c = Some (Permission p)"
      using seed_member [OF seed] by blast
    have "lookupPerm (Graph_Groups G) (FormatInt g) c = Some (Permission p)"
      using G l expansion_explicit [OF explicit [OF p f]] by auto
    with f show "p \<in> set E'" using seed_member [OF listing] by blast
  qed
  show ?thesis
  proof (cases "snd (fetchChildCollections cl) = []")
    case False
    with G have "Graph_Groups G = groups" by auto
    with plain filter_unavailable [OF False] show ?thesis by auto
  next
    case True
    note fm = filter_members [OF True]
    have keep: "set ?E \<subseteq> set (fst (filterRecursivePermissions sched' E' cl))"
    proof
      fix p assume p: "p \<in> set ?E"
      with region have "p \<in> set (fst (filterRecursivePermissions sched' ?E cl))" by simp
      with sub p show "p \<in> set (fst (filterRecursivePermissions sched' E' cl))"
        unfolding fm by blast
    qed
    have derived: "\<exists>cid info. (cid, info) \<in> set ?T \<and> Collection p = Some (Itoa cid) \<and>
               (ParentID info = 5 \<or> ParentID info = 4 \<or> ParentID info = 0)"
      if p: "p \<in> set (fst (filterRecursivePermissions sched' E' cl))" and new: "p \<notin> set ?E" for p
    proof -
      from p have pE': "p \<in> set E'" and kept:
        "\<And>c. Collection p = Some c \<Longrightarrow>
            \<not> (\<exists>child\<in>set ?T. c = Itoa (fst child) \<and>
                 ParentID (snd child) \<noteq> 0 \<and>
                 (HasPrefix (Location (snd child)) ''/5/'' \<or>
                  HasPrefix (Location (snd child)) ''/4/'') \<and>
                 length (Split (Trim (Location (snd child)) CHR ''/'') CHR ''/'') > 1)"
        unfolding fm by auto
      from pE' obtain g c where f: "Group p = Some g" "Collection p = Some c"
        and l: "lookupPerm (Graph_Groups G) (FormatInt g) c = Some (Permission p)"
        using seed_member [OF listing] by blast
      from new f have l0: "lookupPerm groups (FormatInt g) c \<noteq> Some (Permission p)"
        using seed_member [OF seed] by blast
      with G l have Gx: "Graph_Groups G = expandChildCollections U sched ?E cl ?T groups"
        by auto
      from expansion_provenance [OF l [unfolded Gx]] l0
      obtain child where ch: "child \<in> set ?T" "c = Itoa (fst child)"
        and how: "ParentID (snd child) = 5 \<or> ParentID (snd child) = 4 \<or>
                  0 \<le> groupCollectionIdFromLocation (Location (snd child))"
        by blast
      have "ParentID (snd child) = 5 \<or> ParentID (snd child) = 4 \<or> ParentID (snd child) = 0"
      proof (rule ccontr)
        assume n: "\<not> ?thesis"
        with how have "0 \<le> groupCollectionIdFromLocation (Location (snd child))" by blast
        from nested_below_group_collection [OF this] n ch kept [OF f(2)]
        show False by blast
      qed
      with ch f show ?thesis by (metis prod.collapse)
    qed
    from keep derived show ?thesis by blast
  qed
qed

theorem filter_keeps_explicit_and_anchor_children_witness:
  "edge 7 ''root'' ''read'' \<in>
     set (fst (filterRecursivePermissions insertionOrder ownerExpanded sampleClient)) \<and>
   edge 7 ''16'' ''write'' \<in>
     set (fst (filterRecursivePermissions insertionOrder ownerExpanded sampleClient)) \<and>
   edge 7 ''16'' ''write'' \<notin> set (Permissions ownerPlan) \<and>
   (\<exists>cid info. (cid, info) \<in> set (fst (fetchChildCollections sampleClient)) \<and>
      Collection (edge 7 ''16'' ''write'') = Some (Itoa cid) \<and>
      (ParentID info = 5 \<or> ParentID info = 4 \<or> ParentID info = 0))"
proof -
  have listing: "seedPermissions ownerExpanded Map.empty =
      Inr (Graph_Groups \<lparr>Graph_Revision = 0,
            Graph_Groups =
              [''7'' \<mapsto> [''root'' \<mapsto> ''read'', ''16'' \<mapsto> ''write'', ''60'' \<mapsto> ''write'']]\<rparr>)"
    by (simp add: ownerExpanded_listing)
  note w = filter_keeps_explicit_and_anchor_children [OF ownerPlan_made listing ownerPlan_region]
  have a: "edge 7 ''root'' ''read'' \<in> set (Permissions ownerPlan)"
    by (simp add: ownerPlan_def)
  have b: "edge 7 ''16'' ''write'' \<in>
     set (fst (filterRecursivePermissions insertionOrder ownerExpanded sampleClient))"
    by (simp add: ownerExpanded_filtered)
  have c: "edge 7 ''16'' ''write'' \<notin> set (Permissions ownerPlan)"
    by (simp add: ownerPlan_def edge_def)
  from w a b c show ?thesis by blast
qed

text \<open>
  C1, as the claim states it, fails: the expansion of the plan \<open>ownerPlan\<close> gives
  group 7 the level write on its group collection 16, and the filter keeps that derived
  permission, so the filtered expansion is not the plan.
\<close>

theorem filter_not_inverse_counterexample:
  "makeCollectionPermissionsGraphFromModel ascii insertionOrder ownerPlan None (Some sampleClient) =
     (Some ownerGraph, [], [CallListCollections, CallGetPermissionsGroup 7]) \<and>
   seedPermissions ownerExpanded noGroups = Inr (Graph_Groups ownerGraph) \<and>
   fst (filterRecursivePermissions insertionOrder (Permissions ownerPlan) sampleClient) =
     Permissions ownerPlan \<and>
   fst (filterRecursivePermissions insertionOrder ownerExpanded sampleClient) =
     [edge 7 ''root'' ''read'', edge 7 ''16'' ''write''] \<and>
   set [edge 7 ''root'' ''read'', edge 7 ''16'' ''write''] \<noteq> set (Permissions ownerPlan)"
proof -
  have "set [edge 7 ''root'' ''read'', edge 7 ''16'' ''write''] \<noteq> set (Permissions ownerPlan)"
    by (simp add: ownerPlan_def edge_def)
  with ownerPlan_made ownerExpanded_listing ownerPlan_region ownerExpanded_filtered
  show ?thesis by (simp add: ownerGraph_def noGroups_def)
qed

section \<open>Recursive propagation\<close>

text \<open>
  C2, as the code has it. When the expansion runs, every collection of the tree whose
  location leads through an owned group collection, and which no permission of the plan
  names for any group, gets a level for every group of the plan: write for the owning
  group, read for every other group.
\<close>

theorem recursive_propagation_unless_in_plan:
  assumes made: "makeCollectionPermissionsGraphFromModel U sched data state (Some cl) =
                   (Some G, [], calls)"
    and toggle: "ApplyChildCollectionsPermissions data \<noteq> Some False"
    and T: "(cid, info) \<in> set (fst (fetchChildCollections cl))"
    and gc: "0 \<le> groupCollectionIdFromLocation (Location info)"
    and own: "identifyGroupCollections U sched (fst (fetchChildCollections cl))
                (groupIdsOf (Permissions data))
                (fetchGroupNames cl (groupIdsOf (Permissions data)))
                (groupCollectionIdFromLocation (Location info)) = Some owner"
    and np: "\<not> isChildCollectionInPlan (Permissions data) (Itoa cid)"
    and g: "\<exists>p\<in>set (Permissions data). Group p = Some g"
  shows "lookupPerm (Graph_Groups G) (FormatInt g) (Itoa cid) =
         Some (if g = owner then CollectionPermissionLevelWrite else CollectionPermissionLevelRead)"
proof (cases "seedPermissions (Permissions data) Map.empty")
  case (Inl e)
  with made show ?thesis by (simp add: makeGraph_seed_error)
next
  case (Inr groups)
  show ?thesis
  proof (cases "snd (fetchChildCollections cl) = []")
    case False
    from makeGraph_listing_error [OF Inr toggle False, of U sched state] made False
    show ?thesis by simp
  next
    case True
    from makeGraph_expansion [OF Inr toggle True, of U sched state] made
    have G: "Graph_Groups G = expandChildCollections U sched (Permissions data) cl
                               (fst (fetchChildCollections cl)) groups"
      by auto
    from g have g': "g \<in> set (groupIdsOf (Permissions data))"
      by (simp add: set_groupIdsOf)
    show ?thesis
      unfolding G expandChildCollections_def Let_def
      by (rule applyRecursivePermissions_sets
            [where info = info and owner = owner
               and own = "identifyGroupCollections U sched (fst (fetchChildCollections cl))
                (groupIdsOf (Permissions data))
                (fetchGroupNames cl (groupIdsOf (Permissions data)))",
             OF fetchChildCollections_distinct T gc own np g'])
  qed
qed

theorem recursive_propagation_unless_in_plan_witness:
  "lookupPerm
     (Graph_Groups \<lparr>Graph_Revision = 0,
            Graph_Groups =
              [''7'' \<mapsto> [''root'' \<mapsto> ''read'', ''16'' \<mapsto> ''write'', ''60'' \<mapsto> ''write'']]\<rparr>)
     (FormatInt 7) (Itoa 60) = Some CollectionPermissionLevelWrite"
proof -
  let ?info = "\<lparr>ID = 60, ParentID = 16, Name = ''Reports'', Location = ''/5/16/''\<rparr>"
  have t: "ApplyChildCollectionsPermissions ownerPlan \<noteq> Some False"
    by (simp add: ownerPlan_def)
  have T: "(60, ?info) \<in> set (fst (fetchChildCollections sampleClient))"
    by (simp add: sample_tree)
  have gcv: "groupCollectionIdFromLocation (Location ?info) = 16"
    by (simp add: groupCollectionIdFromLocation_def firstSegmentId_def HasPrefix_def
          TrimPrefix_def Atoi_def isDigitChar_def parseDigits_def digitVal_def)
  have gc: "0 \<le> groupCollectionIdFromLocation (Location ?info)"
    using gcv by simp
  have gs: "groupIdsOf (Permissions ownerPlan) = [7]"
    by (simp add: groupIdsOf_def ownerPlan_def edge_def)
  have names: "fetchGroupNames sampleClient [7] = [7 \<mapsto> ''Analytics'']"
    by (simp add: fetchGroupNames_def sampleClient_def)
  have own: "identifyGroupCollections ascii insertionOrder (fst (fetchChildCollections sampleClient))
                (groupIdsOf (Permissions ownerPlan))
                (fetchGroupNames sampleClient (groupIdsOf (Permissions ownerPlan)))
                (groupCollectionIdFromLocation (Location ?info)) = Some 7"
    unfolding gs names sample_tree using gcv
    by (simp add: identifyGroupCollections_def identifyGroupCollection_def
          rangeMap_def rangeSet_def insertionOrder_def namesMatch_def normalizeName_def ascii_def
          ReplaceAll_def asciiLower_def asciiLetterOrDigit_def Let_def)
  have np: "\<not> isChildCollectionInPlan (Permissions ownerPlan) (Itoa 60)"
    by (simp add: isChildCollectionInPlan_def ownerPlan_def edge_def sample_numbers)
  have g: "\<exists>p\<in>set (Permissions ownerPlan). Group p = Some 7"
    by (simp add: ownerPlan_def edge_def)
  from recursive_propagation_unless_in_plan [OF ownerPlan_made t T gc own np g]
  show ?thesis by simp
qed

text \<open>
  C2, as the claim states it, fails: in the plan \<open>samplePlan\<close> group 7 declares the
  collection 60, which lies below the group collection 16 owned by group 7; group 8 has no
  permission declared for 60 and still receives none.
\<close>

theorem recursive_propagation_suppressed_counterexample:
  "groupCollectionIdFromLocation ''/5/16/'' = 16 \<and>
   identifyGroupCollections ascii insertionOrder (fst (fetchChildCollections sampleClient))
     (groupIdsOf (Permissions samplePlan))
     (fetchGroupNames sampleClient (groupIdsOf (Permissions samplePlan))) 16 = Some 7 \<and>
   \<not> isExplicitPermission (Permissions samplePlan) 8 ''60'' \<and>
   lookupPerm (Graph_Groups (the (fst (makeCollectionPermissionsGraphFromModel ascii
      insertionOrder samplePlan None (Some sampleClient))))) ''8'' ''60'' = None"
  by code_simp

section \<open>Idempotence of the expansion\<close>

text \<open>
  C3. Running the expander on its own output changes nothing: when the expander returns
  a graph without an error, then for the same client, and for any schedule, the expander
  run on any listing \<open>E'\<close> of that graph as permissions returns the same graph, again
  without an error.
\<close>

theorem expansion_is_idempotent:
  assumes made: "makeCollectionPermissionsGraphFromModel U sched data state client =
                   (Some G, [], calls)"
    and listing: "seedPermissions E' Map.empty = Inr (Graph_Groups G)"
  shows "\<exists>calls'. makeCollectionPermissionsGraphFromModel U sched' (data\<lparr>Permissions := E'\<rparr>)
                     state client = (Some G, [], calls')"
proof (cases "seedPermissions (Permissions data) Map.empty")
  case (Inl e)
  with made show ?thesis by (simp add: makeGraph_seed_error)
next
  case (Inr groups)
  let ?data' = "data\<lparr>Permissions := E'\<rparr>"
  let ?rev = "case state of None \<Rightarrow> Revision data | Some st \<Rightarrow> Revision st"
  have listing': "seedPermissions (Permissions ?data') Map.empty = Inr (Graph_Groups G)"
    using listing by simp
  have rev': "(case state of None \<Rightarrow> Revision ?data' | Some st \<Rightarrow> Revision st) = ?rev"
    by (simp split: option.splits)
  show ?thesis
  proof (cases "ApplyChildCollectionsPermissions data = Some False \<or> client = None")
    case True
    from makeGraph_no_expansion [OF Inr True, of U sched state] made
    have G: "G = \<lparr>Graph_Revision = ?rev, Graph_Groups = groups\<rparr>" by simp
    from True have True': "ApplyChildCollectionsPermissions ?data' = Some False \<or> client = None"
      by simp
    from makeGraph_no_expansion [OF listing' True', of U sched' state] G rev'
    show ?thesis by simp
  next
    case False
    then obtain cl where cl: "client = Some cl"
      and t: "ApplyChildCollectionsPermissions data \<noteq> Some False" by auto
    show ?thesis
    proof (cases "snd (fetchChildCollections cl) = []")
      case False
      from makeGraph_listing_error [OF Inr t False, of U sched state] made cl False
      show ?thesis by simp
    next
      case True
      let ?T = "fst (fetchChildCollections cl)"
      from makeGraph_expansion [OF Inr t True, of U sched state] made cl
      have G: "G = \<lparr>Graph_Revision = ?rev,
                    Graph_Groups = expandChildCollections U sched (Permissions data) cl ?T groups\<rparr>"
        by simp
      then have GG: "Graph_Groups G =
                     expandChildCollections U sched (Permissions data) cl ?T groups"
        by simp
      from t have t': "ApplyChildCollectionsPermissions ?data' \<noteq> Some False" by simp
      have idem: "expandChildCollections U sched' E' cl ?T (Graph_Groups G) = Graph_Groups G"
        unfolding GG
        by (rule expansion_idempotent [OF Inr fetchChildCollections_distinct listing [unfolded GG]])
      from makeGraph_expansion [OF listing' t' True, of U sched' state] cl idem G rev'
      show ?thesis by simp
    qed
  qed
qed

theorem expansion_is_idempotent_witness:
  "\<exists>calls'. makeCollectionPermissionsGraphFromModel ascii insertionOrder
      (ownerPlan\<lparr>Permissions := ownerExpanded\<rparr>) None (Some sampleClient) =
     (Some \<lparr>Graph_Revision = 0,
            Graph_Groups =
              [''7'' \<mapsto> [''root'' \<mapsto> ''read'', ''16'' \<mapsto> ''write'', ''60'' \<mapsto> ''write'']]\<rparr>,
      [], calls')"
proof -
  have listing: "seedPermissions ownerExpanded Map.empty =
      Inr (Graph_Groups \<lparr>Graph_Revision = 0,
            Graph_Groups =
              [''7'' \<mapsto> [''root'' \<mapsto> ''read'', ''16'' \<mapsto> ''write'', ''60'' \<mapsto> ''write'']]\<rparr>)"
    by (simp add: ownerExpanded_listing)
  show ?thesis
    by (rule expansion_is_idempotent [OF ownerPlan_made listing])
qed

section \<open>The pass over the group collections\<close>

text \<open>
  C7. In the pass over the direct children of the collections 5 and 4, started from any
  graph: a level at a pair of group and collection that the plan declares is left as it
  is; a level write is never changed; and a level read at a pair that the plan does not
  declare, for a child whose name matches the name of the group, becomes write.
\<close>

theorem anchor_child_step_never_downgrades:
  "(isExplicitPermission ps g c \<longrightarrow>
      lookupPerm (applyGroupCollections U sched ps T gs names G) (FormatInt g) c =
      lookupPerm G (FormatInt g) c) \<and>
   (lookupPerm G k c = Some CollectionPermissionLevelWrite \<longrightarrow>
      lookupPerm (applyGroupCollections U sched ps T gs names G) k c =
      Some CollectionPermissionLevelWrite) \<and>
   ((cid, info) \<in> set T \<and> (ParentID info = 5 \<or> ParentID info = 4) \<and> g \<in> set gs \<and>
    \<not> isExplicitPermission ps g (Itoa cid) \<and> namesMatch U names (Name info) g \<and>
    lookupPerm G (FormatInt g) (Itoa cid) = Some CollectionPermissionLevelRead \<longrightarrow>
      lookupPerm (applyGroupCollections U sched ps T gs names G) (FormatInt g) (Itoa cid) =
      Some CollectionPermissionLevelWrite)"
proof (intro conjI impI)
  assume "isExplicitPermission ps g c"
  then show "lookupPerm (applyGroupCollections U sched ps T gs names G) (FormatInt g) c =
             lookupPerm G (FormatInt g) c"
    by (rule applyGroupCollections_explicit)
next
  assume "lookupPerm G k c = Some CollectionPermissionLevelWrite"
  then show "lookupPerm (applyGroupCollections U sched ps T gs names G) k c =
             Some CollectionPermissionLevelWrite"
    by (rule applyGroupCollections_write)
next
  assume a: "(cid, info) \<in> set T \<and> (ParentID info = 5 \<or> ParentID info = 4) \<and> g \<in> set gs \<and>
    \<not> isExplicitPermission ps g (Itoa cid) \<and> namesMatch U names (Name info) g \<and>
    lookupPerm G (FormatInt g) (Itoa cid) = Some CollectionPermissionLevelRead"
  show "lookupPerm (applyGroupCollections U sched ps T gs names G) (FormatInt g) (Itoa cid) =
             Some CollectionPermissionLevelWrite"
    by (rule applyGroupCollections_upgrade [where info = info])
       (use a in \<open>blast+\<close>)
qed

theorem anchor_child_step_never_downgrades_witness:
  "lookupPerm (applyGroupCollections ascii insertionOrder [edge 7 ''root'' ''write'']
       [(16, sampleInfo)] [7] [7 \<mapsto> ''Analytics'']
       [''7'' \<mapsto> [''root'' \<mapsto> ''write'', ''16'' \<mapsto> ''read'']]) ''7'' ''root'' = Some ''write'' \<and>
   lookupPerm (applyGroupCollections ascii insertionOrder [edge 7 ''root'' ''write'']
       [(16, sampleInfo)] [7] [7 \<mapsto> ''Analytics'']
       [''7'' \<mapsto> [''root'' \<mapsto> ''write'', ''16'' \<mapsto> ''read'']]) ''7'' ''16'' = Some ''write''"
proof -
  let ?ps = "[edge 7 ''root'' ''write'']"
  let ?G = "[''7'' \<mapsto> [''root'' \<mapsto> ''write'', ''16'' \<mapsto> ''read'']]"
  let ?names = "[7 \<mapsto> ''Analytics'']"
  have h1: "isExplicitPermission ?ps 7 ''root''"
    by (simp add: isExplicitPermission_def edge_def)
  have h2: "lookupPerm ?G ''7'' ''root'' = Some CollectionPermissionLevelWrite"
    by (simp add: lookupPerm_def CollectionPermissionLevelWrite_def)
  have i16: "Itoa 16 = ''16''"
    by (simp add: Itoa_def digits.simps digitChar_def)
  have h3: "(16, sampleInfo) \<in> set [(16, sampleInfo)] \<and>
            (ParentID sampleInfo = 5 \<or> ParentID sampleInfo = 4) \<and> 7 \<in> set [7::int] \<and>
            \<not> isExplicitPermission ?ps 7 (Itoa 16) \<and>
            namesMatch ascii ?names (Name sampleInfo) 7 \<and>
            lookupPerm ?G (FormatInt 7) (Itoa 16) = Some CollectionPermissionLevelRead"
    by (simp add: sampleInfo_def isExplicitPermission_def edge_def i16 namesMatch_def
          normalizeName_def ascii_def lookupPerm_def FormatInt_samples
          CollectionPermissionLevelRead_def)
  from anchor_child_step_never_downgrades [of ?ps 7 "''root''" ascii insertionOrder
         "[(16, sampleInfo)]" "[7]" ?names ?G "''7''" 16 sampleInfo] h1 h2 h3
  show ?thesis
    by (simp add: FormatInt_samples i16 CollectionPermissionLevelWrite_def)
qed

end
